theory Spec2Isabelle
  imports Complex_Main "HOL-Library.Log_Nat"
begin

section \<open>The text subtitle demuxer (modules/demux/subtitle.c)\<close>

text \<open>
  A shallow embedding of \<^verbatim>\<open>subtitle.c\<close>.  C strings are modelled by their
  content up to the terminating NUL (a \<open>string\<close>), a \<^verbatim>\<open>char *\<close> that may be
  \<^verbatim>\<open>NULL\<close> by \<open>string option\<close>, \<^verbatim>\<open>int\<close> and \<^verbatim>\<open>int64_t\<close> by \<open>int\<close>
  (every place where the C arithmetic could leave the range is named where it
  occurs), \<^verbatim>\<open>malloc\<close> is taken to succeed.
\<close>

subsection \<open>The loaded text and its cursor\<close>

text \<open>
  \<^verbatim>\<open>typedef struct { int i_line_count; int i_line; char **line; } text_t;\<close>
\<close>

record text_t =
  i_line_count :: int
  i_line :: int
  line :: "string list"
  line_freed :: bool

text \<open>
  \<open>line\<close> holds the \<open>i_line_count\<close> lines stored in the array.  The field
  \<open>line_freed\<close> is not in the C struct: it records that the pointer \<open>line\<close> has
  been passed to \<^verbatim>\<open>free\<close>, so that a second \<^verbatim>\<open>free\<close> of it shows.
\<close>

text \<open>
  The array \<open>line\<close> has \<open>i_line_count\<close> entries and \<open>TextGetLine\<close> reads
  \<open>line[i_line]\<close>; the read is inside the array whenever \<open>text_ok\<close> holds, which
  \<open>TextLoad\<close> establishes and every operation of the file keeps.
\<close>

definition text_ok :: "text_t \<Rightarrow> bool" where
  "text_ok txt = (i_line_count txt = int (length (line txt)) \<and>
                  0 \<le> i_line txt \<and> i_line txt \<le> i_line_count txt)"

definition TextGetLine :: "text_t \<Rightarrow> string option \<times> text_t" where
  "TextGetLine txt =
     (if i_line txt \<ge> i_line_count txt then (None, txt)
      else (Some (line txt ! nat (i_line txt)), txt\<lparr>i_line := i_line txt + 1\<rparr>))"

definition TextPreviousLine :: "text_t \<Rightarrow> text_t" where
  "TextPreviousLine txt =
     (if i_line txt > 0 then txt\<lparr>i_line := i_line txt - 1\<rparr> else txt)"

text \<open>A sequence of cursor calls, as a parser issues them.\<close>

datatype cursor_op = Next | PushBack

fun cursor_step :: "text_t \<Rightarrow> cursor_op \<Rightarrow> text_t" where
  "cursor_step txt Next = snd (TextGetLine txt)"
| "cursor_step txt PushBack = TextPreviousLine txt"

definition cursor_run :: "text_t \<Rightarrow> cursor_op list \<Rightarrow> text_t" where
  "cursor_run txt ops = foldl cursor_step txt ops"

definition cursor_bound :: "text_t \<Rightarrow> bool" where
  "cursor_bound txt = (0 \<le> i_line txt \<and> i_line txt \<le> i_line_count txt)"

subsection \<open>C library functions the file calls\<close>

text \<open>
  The character classes and conversions of \<^verbatim>\<open>ctype.h\<close> in the C locale,
  and the string searches of \<^verbatim>\<open>string.h\<close>.  A search that returns a pointer
  into its argument returns the rest of the string from that place.
\<close>

definition isspace :: "char \<Rightarrow> bool" where
  "isspace c = (c \<in> set [CHR '' '', CHR 0x09, CHR 0x0A, CHR 0x0B, CHR 0x0C, CHR 0x0D])"

definition isdigit :: "char \<Rightarrow> bool" where
  "isdigit c = (c \<in> set ''0123456789'')"

definition isalpha :: "char \<Rightarrow> bool" where
  "isalpha c = (let n = (of_char c :: nat) in (65 \<le> n \<and> n \<le> 90) \<or> (97 \<le> n \<and> n \<le> 122))"

definition toupper :: "char \<Rightarrow> char" where
  "toupper c = (let n = (of_char c :: nat) in if 97 \<le> n \<and> n \<le> 122 then char_of (n - 32) else c)"

definition tolower :: "char \<Rightarrow> char" where
  "tolower c = (let n = (of_char c :: nat) in if 65 \<le> n \<and> n \<le> 90 then char_of (n + 32) else c)"

definition digit_val :: "char \<Rightarrow> int" where
  "digit_val c = int (of_char c) - 48"

definition dec_val :: "string \<Rightarrow> int" where
  "dec_val ds = foldl (\<lambda>a c. 10 * a + digit_val c) 0 ds"

fun strstr :: "string \<Rightarrow> string \<Rightarrow> string option" where
  "strstr [] needle = (if needle = [] then Some [] else None)"
| "strstr (h # hs) needle =
     (if needle = take (length needle) (h # hs) then Some (h # hs) else strstr hs needle)"

fun strcasestr :: "string \<Rightarrow> string \<Rightarrow> string option" where
  "strcasestr [] needle = (if needle = [] then Some [] else None)"
| "strcasestr (h # hs) needle =
     (if map tolower needle = map tolower (take (length needle) (h # hs)) then Some (h # hs)
      else strcasestr hs needle)"

fun strncmp :: "string \<Rightarrow> string \<Rightarrow> nat \<Rightarrow> int" where
  "strncmp a b 0 = 0"
| "strncmp [] [] (Suc n) = 0"
| "strncmp [] (y # ys) (Suc n) = - int (of_char y)"
| "strncmp (x # xs) [] (Suc n) = int (of_char x)"
| "strncmp (x # xs) (y # ys) (Suc n) =
     (if x = y then strncmp xs ys n else int (of_char x) - int (of_char y))"

definition strncasecmp :: "string \<Rightarrow> string \<Rightarrow> nat \<Rightarrow> int" where
  "strncasecmp a b n = strncmp (map tolower a) (map tolower b) n"

text \<open>
  A decimal integer as \<^verbatim>\<open>%d\<close>, \<^verbatim>\<open>atoi\<close> and \<^verbatim>\<open>strtol\<close> read it: an
  optional sign and at least one digit.  The value is the mathematical one; C
  leaves a value outside the target type undefined (\<^verbatim>\<open>%d\<close>, \<^verbatim>\<open>atoi\<close>).
\<close>

definition scan_sign :: "string \<Rightarrow> bool \<times> string" where
  "scan_sign s =
     (case s of [] \<Rightarrow> (False, [])
      | c # r \<Rightarrow> if c = CHR ''-'' then (True, r) else if c = CHR ''+'' then (False, r)
                 else (False, s))"

definition scan_int :: "string \<Rightarrow> (int \<times> string) option" where
  "scan_int s =
     (let (neg, r) = scan_sign s; ds = takeWhile isdigit r
      in if ds = [] then None
         else Some (if neg then - dec_val ds else dec_val ds, dropWhile isdigit r))"

definition atoi :: "string \<Rightarrow> int" where
  "atoi s = (case scan_int (dropWhile isspace s) of None \<Rightarrow> 0 | Some (v, r) \<Rightarrow> v)"

subsection \<open>Floating point\<close>

text \<open>
  A \<^verbatim>\<open>float\<close> or \<^verbatim>\<open>double\<close> is modelled by the rational number it denotes.
  Every operation rounds its exact result to the nearest number with a significand
  of 24 (float) or 53 (double) bits, ties to even.  The exponent range is not
  bounded, and infinities and NaN are not values of the model.
\<close>

definition ilog2 :: "rat \<Rightarrow> int" where
  \<comment> \<open>\<open>\<lfloor>log\<^sub>2 x\<rfloor>\<close> for \<open>x > 0\<close>\<close>
  "ilog2 x = (if x \<ge> 1 then bitlen \<lfloor>x\<rfloor> - 1 else - bitlen (\<lceil>1 / x\<rceil> - 1))"

definition pow2 :: "int \<Rightarrow> rat" where
  "pow2 e = (if e \<ge> 0 then 2 ^ nat e else 1 / 2 ^ nat (- e))"

definition round_half_even :: "rat \<Rightarrow> int" where
  "round_half_even y =
     (let f = \<lfloor>y\<rfloor>; r = y - of_int f
      in if r < 1 / 2 then f else if r > 1 / 2 then f + 1 else if even f then f else f + 1)"

definition fl_round :: "nat \<Rightarrow> rat \<Rightarrow> rat" where
  "fl_round p x =
     (if x = 0 then 0
      else let u = pow2 (ilog2 \<bar>x\<bar> - int p + 1) in of_int (round_half_even (x / u)) * u)"

definition to_float :: "rat \<Rightarrow> rat" where
  "to_float x = fl_round 24 x"

definition to_double :: "rat \<Rightarrow> rat" where
  "to_double x = fl_round 53 x"

definition to_int64 :: "rat \<Rightarrow> int" where
  \<comment> \<open>the conversion \<^verbatim>\<open>(int64_t) x\<close>: towards zero\<close>
  "to_int64 x = (if x \<ge> 0 then \<lfloor>x\<rfloor> else \<lceil>x\<rceil>)"

text \<open>
  A decimal floating-point number as \<^verbatim>\<open>strtod\<close> reads it: sign, digits with an
  optional fraction, and an exponent when it is complete.  The hexadecimal form,
  \<^verbatim>\<open>inf\<close> and \<^verbatim>\<open>nan\<close> are not modelled.  The result is the exact value and the
  rest of the input.
\<close>

definition scan_decimal :: "string \<Rightarrow> (rat \<times> string) option" where
  "scan_decimal s =
     (let (neg, r1) = scan_sign s;
          ip = takeWhile isdigit r1; r2 = dropWhile isdigit r1;
          (fp, r3) = (case r2 of [] \<Rightarrow> ([], [])
                      | c # r \<Rightarrow> if c = CHR ''.'' then (takeWhile isdigit r, dropWhile isdigit r)
                                 else ([], r2));
          m = (of_int (dec_val (ip @ fp)) :: rat) / 10 ^ length fp;
          (ex, r4) = (case r3 of [] \<Rightarrow> (0, [])
                      | c # r \<Rightarrow> if c = CHR ''e'' \<or> c = CHR ''E''
                                 then (case scan_int r of None \<Rightarrow> (0, r3) | Some (v, r') \<Rightarrow> (v, r'))
                                 else (0, r3));
          v = m * (if ex \<ge> 0 then 10 ^ nat ex else 1 / 10 ^ nat (- ex))
      in if ip = [] \<and> fp = [] then None else Some (if neg then - v else v, r4))"

text \<open>
  Modelled from the spec: \<^verbatim>\<open>us_strtod\<close> is defined outside this file; it is
  \<^verbatim>\<open>strtod\<close> in the C locale (the frame rate \<^verbatim>\<open>23.976\<close> of a MicroDVD
  declaration line reads as that number), and returns 0 when nothing converts.
\<close>

definition us_strtod :: "string \<Rightarrow> rat" where
  "us_strtod s = (case scan_decimal (dropWhile isspace s) of None \<Rightarrow> 0 | Some (v, r) \<Rightarrow> to_double v)"

subsection \<open>sscanf\<close>

text \<open>
  The conversions the file's format strings use: a literal character, white space
  (any amount of it in the input, also none), \<^verbatim>\<open>%d\<close>, \<^verbatim>\<open>%c\<close>, \<^verbatim>\<open>%f\<close> and
  the negated scanset \<^verbatim>\<open>%[^...]\<close> with an optional width, each with an optional
  \<^verbatim>\<open>*\<close> that suppresses the assignment.  The flag of a directive is \<open>True\<close>
  when it assigns.
\<close>

datatype directive =
  FLit char | FSpace | FInt bool | FChar bool | FFloat bool | FSet bool nat string

definition conv_spec :: "string \<Rightarrow> (directive \<times> string) option" where
  "conv_spec f =
     (let (asg, f1) = (case f of [] \<Rightarrow> (True, [])
                       | c # r \<Rightarrow> if c = CHR ''*'' then (False, r) else (True, f));
          width = nat (dec_val (takeWhile isdigit f1)); f2 = dropWhile isdigit f1
      in case f2 of [] \<Rightarrow> None
         | c # r \<Rightarrow>
             if c = CHR ''d'' then Some (FInt asg, r)
             else if c = CHR ''c'' then Some (FChar asg, r)
             else if c = CHR ''f'' then Some (FFloat asg, r)
             else if c = CHR ''['' then
               (case r of [] \<Rightarrow> None
                | x # r' \<Rightarrow>
                    if x = CHR ''^''
                    then Some (FSet asg width (takeWhile (\<lambda>c. c \<noteq> CHR '']'') r'),
                               drop 1 (dropWhile (\<lambda>c. c \<noteq> CHR '']'') r'))
                    else None)
             else None)"

lemma conv_spec_length: "conv_spec f = Some (d, r) \<Longrightarrow> length r \<le> length f"
proof -
  have dw: "length (dropWhile P xs) \<le> length xs" for P and xs :: string
    by (rule length_dropWhile_le)
  assume a: "conv_spec f = Some (d, r)"
  obtain asg f1 where f1: "(case f of [] \<Rightarrow> (True, [])
        | c # r \<Rightarrow> if c = CHR ''*'' then (False, r) else (True, f)) = (asg, f1)"
    by (cases "(case f of [] \<Rightarrow> (True, [])
        | c # r \<Rightarrow> if c = CHR ''*'' then (False, r) else (True, f))") auto
  then have l1: "length f1 \<le> length f"
    by (auto split: list.splits if_splits)
  have l2: "length (dropWhile isdigit f1) \<le> length f1" by (rule dw)
  from a f1 obtain c r0 where f2: "dropWhile isdigit f1 = c # r0"
    by (auto simp: conv_spec_def Let_def split: list.splits)
  have "length r \<le> length r0"
  proof (cases "c = CHR ''[''")
    case False
    with a f1 f2 show ?thesis
      by (auto simp: conv_spec_def Let_def split: if_splits)
  next
    case True
    with a f1 f2 obtain r' where r': "r0 = CHR ''^'' # r'"
        and r: "r = drop 1 (dropWhile (\<lambda>c. c \<noteq> CHR '']'') r')"
      by (auto simp: conv_spec_def Let_def split: if_splits list.splits)
    have "length (dropWhile (\<lambda>c. c \<noteq> CHR '']'') r') \<le> length r'" by (rule dw)
    with r r' show ?thesis by simp
  qed
  with f2 l1 l2 show ?thesis
    by (metis Suc_leD le_trans length_Cons not_less_eq_eq)
qed

function parse_fmt :: "string \<Rightarrow> directive list" where
  "parse_fmt [] = []"
| "parse_fmt (c # cs) =
     (if c = CHR ''%'' then (case conv_spec cs of None \<Rightarrow> [] | Some (d, rest) \<Rightarrow> d # parse_fmt rest)
      else if isspace c then FSpace # parse_fmt cs
      else FLit c # parse_fmt cs)"
  by pat_completeness auto
termination
  by (relation "measure length") (auto dest: conv_spec_length)

text \<open>
  The values a call assigns, in the order of its pointer arguments.  \<open>arg_int\<close> and
  its siblings read the variable behind the k-th pointer after the call: the value
  assigned, or the old value when the call stopped before.
\<close>

datatype scanned = AInt int | AChar char | AStr string | AFlt rat

definition arg_int :: "scanned list \<Rightarrow> nat \<Rightarrow> int \<Rightarrow> int" where
  "arg_int as k old = (if k < length as then (case as ! k of AInt v \<Rightarrow> v | _ \<Rightarrow> old) else old)"

definition arg_chr :: "scanned list \<Rightarrow> nat \<Rightarrow> char \<Rightarrow> char" where
  "arg_chr as k old = (if k < length as then (case as ! k of AChar v \<Rightarrow> v | _ \<Rightarrow> old) else old)"

definition arg_str :: "scanned list \<Rightarrow> nat \<Rightarrow> string \<Rightarrow> string" where
  "arg_str as k old = (if k < length as then (case as ! k of AStr v \<Rightarrow> v | _ \<Rightarrow> old) else old)"

definition arg_flt :: "scanned list \<Rightarrow> nat \<Rightarrow> rat \<Rightarrow> rat" where
  "arg_flt as k old = (if k < length as then (case as ! k of AFlt v \<Rightarrow> v | _ \<Rightarrow> old) else old)"

text \<open>
  The return value is the number of assignments, or \<^verbatim>\<open>EOF\<close> (-1) when the input
  ends before a directive can read a character and nothing has been assigned yet
  (as glibc and musl return it).  A conversion that finds no match stops the call.
\<close>

definition scan_eof :: "scanned list \<Rightarrow> int \<times> scanned list" where
  "scan_eof acc = (if acc = [] then - 1 else int (length acc), acc)"

definition scan_stop :: "scanned list \<Rightarrow> int \<times> scanned list" where
  "scan_stop acc = (int (length acc), acc)"

fun scan :: "directive list \<Rightarrow> string \<Rightarrow> scanned list \<Rightarrow> int \<times> scanned list" where
  "scan [] inp acc = scan_stop acc"
| "scan (FLit c # fs) inp acc =
     (case inp of [] \<Rightarrow> scan_eof acc
      | x # xs \<Rightarrow> if x = c then scan fs xs acc else scan_stop acc)"
| "scan (FSpace # fs) inp acc = scan fs (dropWhile isspace inp) acc"
| "scan (FInt asg # fs) inp acc =
     (if dropWhile isspace inp = [] then scan_eof acc
      else case scan_int (dropWhile isspace inp) of None \<Rightarrow> scan_stop acc
           | Some (v, rest) \<Rightarrow> scan fs rest (if asg then acc @ [AInt v] else acc))"
| "scan (FChar asg # fs) inp acc =
     (case inp of [] \<Rightarrow> scan_eof acc
      | x # xs \<Rightarrow> scan fs xs (if asg then acc @ [AChar x] else acc))"
| "scan (FFloat asg # fs) inp acc =
     (if dropWhile isspace inp = [] then scan_eof acc
      else case scan_decimal (dropWhile isspace inp) of None \<Rightarrow> scan_stop acc
           | Some (v, rest) \<Rightarrow> scan fs rest (if asg then acc @ [AFlt (to_float v)] else acc))"
| "scan (FSet asg w excl # fs) inp acc =
     (if inp = [] then scan_eof acc
      else if (if w = 0 then takeWhile (\<lambda>c. c \<notin> set excl) inp
               else take w (takeWhile (\<lambda>c. c \<notin> set excl) inp)) = [] then scan_stop acc
      else scan fs
             (drop (length (if w = 0 then takeWhile (\<lambda>c. c \<notin> set excl) inp
                            else take w (takeWhile (\<lambda>c. c \<notin> set excl) inp))) inp)
             (if asg then acc @ [AStr (if w = 0 then takeWhile (\<lambda>c. c \<notin> set excl) inp
                                       else take w (takeWhile (\<lambda>c. c \<notin> set excl) inp))]
              else acc))"

definition sscanf :: "string \<Rightarrow> string \<Rightarrow> int \<times> scanned list" where
  "sscanf s fmt = scan (parse_fmt fmt) s []"

subsection \<open>The demuxer's data\<close>

datatype status = VLC_SUCCESS | VLC_EGENERIC | VLC_ENOMEM | UNDEFINED

text \<open>
  \<open>VLC_SUCCESS\<close>, \<open>VLC_EGENERIC\<close> and \<open>VLC_ENOMEM\<close> are the return codes of the
  file.  \<open>UNDEFINED\<close> is not a return code: it marks an execution that leaves
  defined C (a read outside a string, a division by zero, a second
  \<^verbatim>\<open>free\<close>), after which nothing is known of the program.
\<close>

datatype sub_type =
  SUB_TYPE_UNKNOWN | SUB_TYPE_MICRODVD | SUB_TYPE_SUBRIP | SUB_TYPE_SSA1 | SUB_TYPE_SSA2_4
| SUB_TYPE_ASS | SUB_TYPE_VPLAYER | SUB_TYPE_SAMI | SUB_TYPE_SUBVIEWER | SUB_TYPE_DVDSUBTITLE
| SUB_TYPE_MPL2 | SUB_TYPE_AQT | SUB_TYPE_PJS | SUB_TYPE_MPSUB | SUB_TYPE_JACOSUB

record subtitle_t =
  i_start :: int
  i_stop :: int
  psz_text :: string

text \<open>
  Modelled from the spec: the stream of the input (\<^verbatim>\<open>stream_t\<close>,
  \<^verbatim>\<open>stream_ReadLine\<close>, \<^verbatim>\<open>stream_Seek\<close>) is defined outside this file.  It is a
  pull-based source of lines without their terminators, read forward;
  \<^verbatim>\<open>stream_ReadLine\<close> returns \<^verbatim>\<open>NULL\<close> at the end, and a seek may fail on a
  source that cannot rewind.
\<close>

record stream_t =
  s_lines :: "string list"
  s_pos :: nat
  s_seekable :: bool

definition stream_ReadLine :: "stream_t \<Rightarrow> string option \<times> stream_t" where
  "stream_ReadLine strm =
     (if s_pos strm < length (s_lines strm)
      then (Some (s_lines strm ! s_pos strm), strm\<lparr>s_pos := s_pos strm + 1\<rparr>)
      else (None, strm))"

definition stream_Seek :: "stream_t \<Rightarrow> nat \<Rightarrow> status \<times> stream_t" where
  "stream_Seek strm pos =
     (if s_seekable strm then (VLC_SUCCESS, strm\<lparr>s_pos := pos\<rparr>) else (VLC_EGENERIC, strm))"

record demux_sys_t =
  i_type :: sub_type
  sys_txt :: text_t
  i_next_demux_date :: int
  i_microsecperframe :: int
  psz_header :: "string option"
  i_subtitle :: int
  i_subtitles :: int
  subtitle :: "subtitle_t list"
  i_length :: int

text \<open>
  \<open>sys_txt\<close> is the field \<^verbatim>\<open>txt\<close> of the struct; \<open>subtitle\<close> holds the
  \<open>i_subtitles\<close> entries of the array that have been parsed.  The elementary
  stream \<^verbatim>\<open>es\<close> is left out.

  Of \<^verbatim>\<open>demux_t\<close> the model keeps what this file reads: the flag \<open>b_force\<close>,
  the stream, the object variables \<^verbatim>\<open>sub-original-fps\<close>, \<^verbatim>\<open>sub-fps\<close> and
  \<^verbatim>\<open>sub-type\<close>, and \<open>p_sys\<close>.  \<open>fresh_slot n\<close> is the content of entry \<open>n\<close>
  of the subtitle array when \<^verbatim>\<open>realloc\<close> hands it out: any value, since the
  memory is not initialised.  \<open>stack_junk k\<close> is likewise the byte at index \<open>k\<close> of
  the automatic array \<^verbatim>\<open>text\<close> of \<open>ParseSami\<close> before the function writes to it.
\<close>

record demux_t =
  b_force :: bool
  p_stream :: stream_t
  var_sub_original_fps :: rat
  var_sub_fps :: rat
  var_sub_type :: string
  p_sys :: demux_sys_t
  fresh_slot :: "int \<Rightarrow> subtitle_t"
  stack_junk :: "int \<Rightarrow> char"

text \<open>
  The variables of static storage duration: \<^verbatim>\<open>mpsub_total\<close> and
  \<^verbatim>\<open>mpsub_factor\<close> at file scope, \<^verbatim>\<open>i_comment\<close>, \<^verbatim>\<open>jss_time_resolution\<close> and
  \<^verbatim>\<open>jss_time_shift\<close> inside \<^verbatim>\<open>ParseJSS\<close>.  They belong to the process, not to
  a \<^verbatim>\<open>demux_t\<close>; \<open>statics_init\<close> holds their initialisers.
\<close>

record statics =
  mpsub_total :: rat
  mpsub_factor :: rat
  i_comment :: int
  jss_time_resolution :: int
  jss_time_shift :: int

definition statics_init :: statics where
  "statics_init = \<lparr>mpsub_total = 0, mpsub_factor = 0, i_comment = 0,
                    jss_time_resolution = 30, jss_time_shift = 0\<rparr>"

subsection \<open>Loading the text\<close>

definition remaining :: "text_t \<Rightarrow> nat" where
  "remaining txt = nat (i_line_count txt - i_line txt)"

function TextLoad_loop :: "text_t \<Rightarrow> stream_t \<Rightarrow> text_t \<times> stream_t" where
  "TextLoad_loop txt strm =
     (case stream_ReadLine strm of
        (None, strm') \<Rightarrow> (txt, strm')
      | (Some psz, strm') \<Rightarrow>
          TextLoad_loop (txt\<lparr>line := line txt @ [psz], i_line_count := i_line_count txt + 1\<rparr>) strm')"
  by pat_completeness auto
termination
  by (relation "measure (\<lambda>(t, strm). length (s_lines strm) - s_pos strm)")
     (auto simp: stream_ReadLine_def split: if_splits)

definition TextLoad :: "text_t \<Rightarrow> stream_t \<Rightarrow> status \<times> text_t \<times> stream_t" where
  "TextLoad txt strm =
     (case TextLoad_loop (txt\<lparr>i_line_count := 0, i_line := 0, line := [], line_freed := False\<rparr>) strm of
        (txt', strm') \<Rightarrow>
          if i_line_count txt' \<le> 0 then (VLC_EGENERIC, txt'\<lparr>line_freed := True\<rparr>, strm')
          else (VLC_SUCCESS, txt', strm'))"

text \<open>\<open>TextUnload\<close> returns \<open>UNDEFINED\<close> when it frees an array already freed.\<close>

definition TextUnload :: "text_t \<Rightarrow> status \<times> text_t" where
  "TextUnload txt =
     (if line_freed txt then (UNDEFINED, txt)
      else (VLC_SUCCESS, txt\<lparr>line := [], line_freed := True, i_line := 0, i_line_count := 0\<rparr>))"

subsection \<open>The parsers\<close>

text \<open>
  Every parser has the C signature
  \<^verbatim>\<open>int Parse( demux_t *p_demux, subtitle_t *p_subtitle, int i_idx )\<close>: the model
  takes the demuxer, the content of \<^verbatim>\<open>*p_subtitle\<close> before the call and
  \<open>i_idx\<close>, and returns the return code, \<^verbatim>\<open>*p_subtitle\<close> and the demuxer after
  the call.  A loop \<^verbatim>\<open>for( ;; )\<close> over the lines is a recursive function; it
  ends because each round takes a line of the text.
\<close>

abbreviation crlf :: string where
  "crlf \<equiv> [CHR 0x0D, CHR 0x0A]"

abbreviation lfcr :: string where
  "lfcr \<equiv> [CHR 0x0A, CHR 0x0D]"

definition set_txt :: "demux_t \<Rightarrow> text_t \<Rightarrow> demux_t" where
  "set_txt d t = d\<lparr>p_sys := (p_sys d)\<lparr>sys_txt := t\<rparr>\<rparr>"

lemma TextGetLine_remaining: "(Some s, t) = TextGetLine txt \<Longrightarrow> remaining t < remaining txt"
  by (auto simp: TextGetLine_def remaining_def split: if_splits)

definition bar_to_newline :: "string \<Rightarrow> string" where
  \<comment> \<open>\<^verbatim>\<open>for( i = 0; psz_text[i] != '\0'; i++ ) if( psz_text[i] == '|' ) psz_text[i] = '\n';\<close>\<close>
  "bar_to_newline tx = map (\<lambda>c. if c = CHR ''|'' then CHR 0x0A else c) tx"

definition hms_ms :: "int \<Rightarrow> int \<Rightarrow> int \<Rightarrow> int \<Rightarrow> int" where
  \<comment> \<open>\<^verbatim>\<open>( (int64_t)h * 3600*1000 + (int64_t)m * 60*1000 + (int64_t)s * 1000 + (int64_t)d ) * 1000\<close>\<close>
  "hms_ms h m sec ms = (h * 3600 * 1000 + m * 60 * 1000 + sec * 1000 + ms) * 1000"

paragraph \<open>MicroDVD\<close>

definition MicroDvd_scan :: "string \<Rightarrow> (int \<times> int \<times> string) option" where
  \<comment> \<open>the two \<^verbatim>\<open>sscanf\<close> calls: \<open>i_start\<close>, \<open>i_stop\<close> and \<open>psz_text\<close> after a match\<close>
  "MicroDvd_scan s =
     (case sscanf s (''{%d}{}%[^'' @ crlf @ '']'') of
        (n1, a1) \<Rightarrow>
          if n1 = 2 then Some (arg_int a1 0 0, 0, arg_str a1 1 [])
          else (case sscanf s (''{%d}{%d}%[^'' @ crlf @ '']'') of
                  (n2, a2) \<Rightarrow>
                    if n2 = 3
                    then Some (arg_int a2 0 (arg_int a1 0 0), arg_int a2 1 0, arg_str a2 2 [])
                    else None))"

definition MicroDvd_fps :: "demux_t \<Rightarrow> string \<Rightarrow> demux_t" where
  "MicroDvd_fps d tx =
     (let f_fps = to_float (us_strtod tx)
      in if f_fps > 0 \<and> var_sub_fps d \<le> 0
         then d\<lparr>p_sys := (p_sys d)\<lparr>i_microsecperframe := to_int64 (to_float (1000000 / f_fps))\<rparr>\<rparr>
         else d)"

function ParseMicroDvd :: "demux_t \<Rightarrow> subtitle_t \<Rightarrow> int \<Rightarrow> status \<times> subtitle_t \<times> demux_t" where
  "ParseMicroDvd d slot i_idx =
     (case TextGetLine (sys_txt (p_sys d)) of
        (None, t) \<Rightarrow> (VLC_EGENERIC, slot, d)
      | (Some s, t) \<Rightarrow>
          (case MicroDvd_scan s of
             None \<Rightarrow> ParseMicroDvd (set_txt d t) slot i_idx
           | Some (start, stop, tx) \<Rightarrow>
               if start \<noteq> 1 \<or> stop \<noteq> 1
               then (VLC_SUCCESS,
                     slot\<lparr>i_start := start * i_microsecperframe (p_sys d),
                          i_stop := stop * i_microsecperframe (p_sys d),
                          psz_text := bar_to_newline tx\<rparr>,
                     set_txt d t)
               else ParseMicroDvd (MicroDvd_fps (set_txt d t) tx) slot i_idx))"
  by pat_completeness auto
termination
  by (relation "measure (\<lambda>(d, slot, i). remaining (sys_txt (p_sys d)))")
     (auto simp: set_txt_def MicroDvd_fps_def Let_def dest: TextGetLine_remaining)

paragraph \<open>SubRip and SubViewer\<close>

function SubRip_timing :: "text_t \<Rightarrow> string \<Rightarrow> ((int \<times> int) option) \<times> text_t" where
  \<comment> \<open>the first loop: the next line that matches \<open>psz_fmt\<close>\<close>
  "SubRip_timing txt psz_fmt =
     (case TextGetLine txt of
        (None, t) \<Rightarrow> (None, t)
      | (Some s, t) \<Rightarrow>
          (case sscanf s psz_fmt of
             (n, a) \<Rightarrow>
               if n = 8
               then (Some (hms_ms (arg_int a 0 0) (arg_int a 1 0) (arg_int a 2 0) (arg_int a 3 0),
                           hms_ms (arg_int a 4 0) (arg_int a 5 0) (arg_int a 6 0) (arg_int a 7 0)), t)
               else SubRip_timing t psz_fmt))"
  by pat_completeness auto
termination
  by (relation "measure (\<lambda>(t, f). remaining t)") (auto dest: TextGetLine_remaining)

lemma strstr_Some: "strstr t n = Some p \<Longrightarrow> length p \<le> length t \<and> length n \<le> length p"
proof (induction t)
  case Nil
  then show ?case by (simp split: if_splits)
next
  case (Cons h hs)
  show ?case
  proof (cases "n = take (length n) (h # hs)")
    case True
    with Cons.prems have p: "p = h # hs" by simp
    from True have "length n = length (take (length n) (h # hs))" by simp
    then have "length n = min (length (h # hs)) (length n)" by (simp only: length_take)
    then have "length n \<le> length (h # hs)" by linarith
    with p show ?thesis by simp
  next
    case False
    with Cons show ?thesis by (simp add: le_SucI)
  qed
qed

function replace_br :: "string \<Rightarrow> string" where
  \<comment> \<open>\<^verbatim>\<open>while( ( p = strstr( psz_text, "[br]" ) ) ) { *p++ = '\n'; memmove( p, &p[3], strlen(&p[3])+1 ); }\<close>\<close>
  "replace_br tx =
     (case strstr tx ''[br]'' of
        None \<Rightarrow> tx
      | Some p \<Rightarrow> replace_br (take (length tx - length p) tx @ CHR 0x0A # drop 4 p))"
  by pat_completeness auto
termination
  by (relation "measure length") (auto dest!: strstr_Some)

function SubRip_text :: "text_t \<Rightarrow> string \<Rightarrow> bool \<Rightarrow> (string option) \<times> text_t" where
  \<comment> \<open>the second loop: the text up to an empty line; \<open>None\<close> when the lines end before\<close>
  "SubRip_text txt tx b_replace_br =
     (case TextGetLine txt of
        (None, t) \<Rightarrow> (None, t)
      | (Some s, t) \<Rightarrow>
          if int (length s) \<le> 0 then (Some tx, t)
          else SubRip_text t (if b_replace_br then replace_br (tx @ s @ [CHR 0x0A])
                              else tx @ s @ [CHR 0x0A]) b_replace_br)"
  by pat_completeness auto
termination
  by (relation "measure (\<lambda>(t, x, b). remaining t)") (auto dest: TextGetLine_remaining)

definition ParseSubRipSubViewer ::
  "demux_t \<Rightarrow> subtitle_t \<Rightarrow> string \<Rightarrow> bool \<Rightarrow> status \<times> subtitle_t \<times> demux_t" where
  "ParseSubRipSubViewer d slot psz_fmt b_replace_br =
     (case SubRip_timing (sys_txt (p_sys d)) psz_fmt of
        (None, t) \<Rightarrow> (VLC_EGENERIC, slot, set_txt d t)
      | (Some (start, stop), t) \<Rightarrow>
          (case SubRip_text t [] b_replace_br of
             (None, t') \<Rightarrow> (VLC_EGENERIC, slot\<lparr>i_start := start, i_stop := stop\<rparr>, set_txt d t')
           | (Some tx, t') \<Rightarrow>
               (VLC_SUCCESS, slot\<lparr>i_start := start, i_stop := stop, psz_text := tx\<rparr>,
                set_txt d t')))"

definition ParseSubRip :: "demux_t \<Rightarrow> subtitle_t \<Rightarrow> int \<Rightarrow> status \<times> subtitle_t \<times> demux_t" where
  "ParseSubRip d slot i_idx =
     ParseSubRipSubViewer d slot ''%d:%d:%d,%d --> %d:%d:%d,%d'' False"

definition ParseSubViewer :: "demux_t \<Rightarrow> subtitle_t \<Rightarrow> int \<Rightarrow> status \<times> subtitle_t \<times> demux_t" where
  "ParseSubViewer d slot i_idx =
     ParseSubRipSubViewer d slot ''%d:%d:%d.%d,%d:%d:%d.%d'' True"

paragraph \<open>SSA and ASS\<close>

function pos_digits :: "int \<Rightarrow> string" where
  \<comment> \<open>the decimal digits of a number that is not negative\<close>
  "pos_digits n =
     (if n < 10 then [char_of (48 + n)] else pos_digits (n div 10) @ [char_of (48 + n mod 10)])"
  by pat_completeness auto
termination
  by (relation "measure nat") auto

definition itoa :: "int \<Rightarrow> string" where
  \<comment> \<open>what \<^verbatim>\<open>%d\<close> prints\<close>
  "itoa i = (if i < 0 then CHR ''-'' # pos_digits (- i) else pos_digits i)"

definition snprintf_d_d :: "nat \<Rightarrow> int \<Rightarrow> int \<Rightarrow> string" where
  \<comment> \<open>\<^verbatim>\<open>snprintf( temp, n, "%d,%d,", a, b )\<close>: at most \<open>n - 1\<close> characters are stored\<close>
  "snprintf_d_d n a b = take (n - 1) (itoa a @ '','' @ itoa b @ '','')"

function ParseSSA :: "demux_t \<Rightarrow> subtitle_t \<Rightarrow> int \<Rightarrow> status \<times> subtitle_t \<times> demux_t" where
  "ParseSSA d slot i_idx =
     (case TextGetLine (sys_txt (p_sys d)) of
        (None, t) \<Rightarrow> (VLC_EGENERIC, slot, d)
      | (Some s, t) \<Rightarrow>
          (case sscanf s (''Dialogue: %15[^,],%d:%d:%d.%d,%d:%d:%d.%d,%[^'' @ crlf @ '']'') of
             (n, a) \<Rightarrow>
               if n = 10
               then (VLC_SUCCESS,
                     slot\<lparr>i_start := hms_ms (arg_int a 1 0) (arg_int a 2 0) (arg_int a 3 0)
                                         (arg_int a 4 0 * 10),
                          i_stop := hms_ms (arg_int a 5 0) (arg_int a 6 0) (arg_int a 7 0)
                                         (arg_int a 8 0 * 10),
                          psz_text :=
                            (if i_type (p_sys d) = SUB_TYPE_SSA1 then CHR '','' # arg_str a 9 []
                             else snprintf_d_d 16 i_idx
                                    (if i_type (p_sys d) = SUB_TYPE_ASS then atoi (arg_str a 0 [])
                                     else 0) @ arg_str a 9 [])\<rparr>,
                     set_txt d t)
               else ParseSSA
                      ((set_txt d t)\<lparr>p_sys := (p_sys (set_txt d t))
                         \<lparr>psz_header :=
                            Some ((case psz_header (p_sys d) of None \<Rightarrow> [] | Some h \<Rightarrow> h)
                                  @ s @ [CHR 0x0A])\<rparr>\<rparr>)
                      slot i_idx))"
  by pat_completeness auto
termination
  by (relation "measure (\<lambda>(d, slot, i). remaining (sys_txt (p_sys d)))")
     (auto simp: set_txt_def dest: TextGetLine_remaining)

paragraph \<open>VPlayer\<close>

function ParseVplayer :: "demux_t \<Rightarrow> subtitle_t \<Rightarrow> int \<Rightarrow> status \<times> subtitle_t \<times> demux_t" where
  "ParseVplayer d slot i_idx =
     (case TextGetLine (sys_txt (p_sys d)) of
        (None, t) \<Rightarrow> (VLC_EGENERIC, slot, d)
      | (Some s, t) \<Rightarrow>
          (case sscanf s (''%d:%d:%d%*c%[^'' @ crlf @ '']'') of
             (n, a) \<Rightarrow>
               if n = 4
               then (VLC_SUCCESS,
                     slot\<lparr>i_start := hms_ms (arg_int a 0 0) (arg_int a 1 0) (arg_int a 2 0) 0,
                          i_stop := 0,
                          psz_text := bar_to_newline (arg_str a 3 [])\<rparr>,
                     set_txt d t)
               else ParseVplayer (set_txt d t) slot i_idx))"
  by pat_completeness auto
termination
  by (relation "measure (\<lambda>(d, slot, i). remaining (sys_txt (p_sys d)))")
     (auto simp: set_txt_def dest: TextGetLine_remaining)

paragraph \<open>DVDSubtitle\<close>

function DVDSubtitle_timing :: "text_t \<Rightarrow> (int option) \<times> text_t" where
  "DVDSubtitle_timing txt =
     (case TextGetLine txt of
        (None, t) \<Rightarrow> (None, t)
      | (Some s, t) \<Rightarrow>
          (case sscanf s ''{T %d:%d:%d:%d'' of
             (n, a) \<Rightarrow>
               if n = 4
               then (Some (hms_ms (arg_int a 0 0) (arg_int a 1 0) (arg_int a 2 0)
                                  (arg_int a 3 0 * 10)), t)
               else DVDSubtitle_timing t))"
  by pat_completeness auto
termination
  by (relation "measure remaining") (auto dest: TextGetLine_remaining)

function DVDSubtitle_text :: "text_t \<Rightarrow> string \<Rightarrow> (string option) \<times> text_t" where
  "DVDSubtitle_text txt tx =
     (case TextGetLine txt of
        (None, t) \<Rightarrow> (None, t)
      | (Some s, t) \<Rightarrow>
          if s = ''}'' then (Some tx, t) else DVDSubtitle_text t (tx @ s @ [CHR 0x0A]))"
  by pat_completeness auto
termination
  by (relation "measure (\<lambda>(t, x). remaining t)") (auto dest: TextGetLine_remaining)

definition ParseDVDSubtitle :: "demux_t \<Rightarrow> subtitle_t \<Rightarrow> int \<Rightarrow> status \<times> subtitle_t \<times> demux_t" where
  "ParseDVDSubtitle d slot i_idx =
     (case DVDSubtitle_timing (sys_txt (p_sys d)) of
        (None, t) \<Rightarrow> (VLC_EGENERIC, slot, set_txt d t)
      | (Some start, t) \<Rightarrow>
          (case DVDSubtitle_text t [] of
             (None, t') \<Rightarrow> (VLC_EGENERIC, slot\<lparr>i_start := start, i_stop := 0\<rparr>, set_txt d t')
           | (Some tx, t') \<Rightarrow>
               (VLC_SUCCESS, slot\<lparr>i_start := start, i_stop := 0, psz_text := tx\<rparr>, set_txt d t')))"

paragraph \<open>MPL2\<close>

definition MPL2_scan :: "string \<Rightarrow> (int \<times> int \<times> string) option" where
  "MPL2_scan s =
     (case sscanf s (''[%d][] %[^'' @ crlf @ '']'') of
        (n1, a1) \<Rightarrow>
          if n1 = 2 then Some (arg_int a1 0 0, 0, arg_str a1 1 [])
          else (case sscanf s (''[%d][%d] %[^'' @ crlf @ '']'') of
                  (n2, a2) \<Rightarrow>
                    if n2 = 3
                    then Some (arg_int a2 0 (arg_int a1 0 0), arg_int a2 1 0, arg_str a2 2 [])
                    else None))"

text \<open>
  The loop over \<open>psz_text\<close> that turns \<^verbatim>\<open>|\<close> into a line break and deletes a
  \<^verbatim>\<open>/\<close> at the start of a line.  The flag says that the character before
  index \<open>i\<close> is a line break or that \<open>i\<close> is 0.
\<close>

fun MPL2_fix :: "bool \<Rightarrow> string \<Rightarrow> string" where
  "MPL2_fix b [] = []"
| "MPL2_fix b (c # r) =
     (if (if c = CHR ''|'' then CHR 0x0A else c) = CHR ''/'' \<and> b then MPL2_fix b r
      else (if c = CHR ''|'' then CHR 0x0A else c)
           # MPL2_fix ((if c = CHR ''|'' then CHR 0x0A else c) = CHR 0x0A) r)"

function ParseMPL2 :: "demux_t \<Rightarrow> subtitle_t \<Rightarrow> int \<Rightarrow> status \<times> subtitle_t \<times> demux_t" where
  "ParseMPL2 d slot i_idx =
     (case TextGetLine (sys_txt (p_sys d)) of
        (None, t) \<Rightarrow> (VLC_EGENERIC, slot, d)
      | (Some s, t) \<Rightarrow>
          (case MPL2_scan s of
             None \<Rightarrow> ParseMPL2 (set_txt d t) slot i_idx
           | Some (start, stop, tx) \<Rightarrow>
               (VLC_SUCCESS,
                slot\<lparr>i_start := start * 100000, i_stop := stop * 100000,
                     psz_text := MPL2_fix True tx\<rparr>,
                set_txt d t)))"
  by pat_completeness auto
termination
  by (relation "measure (\<lambda>(d, slot, i). remaining (sys_txt (p_sys d)))")
     (auto simp: set_txt_def dest: TextGetLine_remaining)

paragraph \<open>AQTitle\<close>

function AQT_loop :: "text_t \<Rightarrow> subtitle_t \<Rightarrow> string \<Rightarrow> bool \<Rightarrow> status \<times> subtitle_t \<times> text_t" where
  "AQT_loop txt slot tx i_firstline =
     (case TextGetLine txt of
        (None, t) \<Rightarrow> (VLC_EGENERIC, slot, t)
      | (Some s, t) \<Rightarrow>
          (case sscanf s ''-->> %d'' of
             (n, a) \<Rightarrow>
               if n = 1
               then (if i_firstline
                     then AQT_loop t (slot\<lparr>i_start := arg_int a 0 0, i_stop := 0\<rparr>) tx False
                     else (VLC_SUCCESS,
                           slot\<lparr>i_start := arg_int a 0 0, i_stop := 0, psz_text := tx\<rparr>,
                           t\<lparr>i_line := i_line t - 1\<rparr>))
               else if i_line t = i_line_count t
                    then (VLC_SUCCESS, slot\<lparr>psz_text := tx @ s @ [CHR 0x0A]\<rparr>, t)
                    else AQT_loop t slot (tx @ s @ [CHR 0x0A]) i_firstline))"
  by pat_completeness auto
termination
  by (relation "measure (\<lambda>(t, slot, x, b). remaining t)") (auto dest: TextGetLine_remaining)

definition ParseAQT :: "demux_t \<Rightarrow> subtitle_t \<Rightarrow> int \<Rightarrow> status \<times> subtitle_t \<times> demux_t" where
  "ParseAQT d slot i_idx =
     (case AQT_loop (sys_txt (p_sys d)) slot [] True of
        (rc, slot', t) \<Rightarrow> (rc, slot', set_txt d t))"

paragraph \<open>PJS\<close>

function ParsePJS :: "demux_t \<Rightarrow> subtitle_t \<Rightarrow> int \<Rightarrow> status \<times> subtitle_t \<times> demux_t" where
  "ParsePJS d slot i_idx =
     (case TextGetLine (sys_txt (p_sys d)) of
        (None, t) \<Rightarrow> (VLC_EGENERIC, slot, d)
      | (Some s, t) \<Rightarrow>
          (case sscanf s (''%d,%d,\"%[^'' @ lfcr @ '']'') of
             (n, a) \<Rightarrow>
               if n = 3
               then (VLC_SUCCESS,
                     slot\<lparr>i_start := 10 * arg_int a 0 0, i_stop := 10 * arg_int a 1 0,
                          psz_text := butlast (arg_str a 2 [])\<rparr>,
                     set_txt d t)
               else ParsePJS (set_txt d t) slot i_idx))"
  by pat_completeness auto
termination
  by (relation "measure (\<lambda>(d, slot, i). remaining (sys_txt (p_sys d)))")
     (auto simp: set_txt_def dest: TextGetLine_remaining)

declare ParseMicroDvd.simps [simp del] SubRip_timing.simps [simp del] SubRip_text.simps [simp del]
  replace_br.simps [simp del] pos_digits.simps [simp del] ParseSSA.simps [simp del]
  ParseVplayer.simps [simp del] DVDSubtitle_timing.simps [simp del]
  DVDSubtitle_text.simps [simp del] ParseMPL2.simps [simp del] AQT_loop.simps [simp del]
  ParsePJS.simps [simp del] TextLoad_loop.simps [simp del] parse_fmt.simps [simp del]

paragraph \<open>SAMI\<close>

text \<open>
  \<^verbatim>\<open>strtol( s, &s, 0 )\<close>: white space, a sign, then a hexadecimal number after
  \<^verbatim>\<open>0x\<close>, an octal number after \<^verbatim>\<open>0\<close>, or a decimal number; the value is
  clamped to the range of \<^verbatim>\<open>long\<close> (64 bits).  Without a digit the result is 0
  and the end pointer is the argument.
\<close>

definition isxdigit :: "char \<Rightarrow> bool" where
  "isxdigit c = (c \<in> set ''0123456789abcdefABCDEF'')"

definition xdigit_val :: "char \<Rightarrow> int" where
  "xdigit_val c = (if isdigit c then digit_val c else int (of_char (tolower c)) - 87)"

definition clamp_long :: "int \<Rightarrow> int" where
  "clamp_long v = max (- (2 ^ 63)) (min (2 ^ 63 - 1) v)"

definition strtol0 :: "string \<Rightarrow> int \<times> string" where
  "strtol0 s =
     (case scan_sign (dropWhile isspace s) of
        (neg, r) \<Rightarrow>
          if (take 2 r = ''0x'' \<or> take 2 r = ''0X'') \<and> takeWhile isxdigit (drop 2 r) \<noteq> []
          then (clamp_long ((if neg then - 1 else 1) *
                            foldl (\<lambda>a c. 16 * a + xdigit_val c) 0 (takeWhile isxdigit (drop 2 r))),
                dropWhile isxdigit (drop 2 r))
          else if take 1 r = ''0''
          then (clamp_long ((if neg then - 1 else 1) *
                            foldl (\<lambda>a c. 8 * a + digit_val c) 0
                              (takeWhile (\<lambda>c. c \<in> set ''01234567'') r)),
                dropWhile (\<lambda>c. c \<in> set ''01234567'') r)
          else if takeWhile isdigit r = [] then (0, s)
          else (clamp_long ((if neg then - 1 else 1) * dec_val (takeWhile isdigit r)),
                dropWhile isdigit r))"

function ParseSamiSearch_lines :: "text_t \<Rightarrow> string \<Rightarrow> (string option) \<times> text_t" where
  \<comment> \<open>the loop of \<open>ParseSamiSearch\<close>\<close>
  "ParseSamiSearch_lines txt psz_str =
     (case TextGetLine txt of
        (None, t) \<Rightarrow> (None, t)
      | (Some p, t) \<Rightarrow>
          (case strcasestr p psz_str of
             Some q \<Rightarrow> (Some (drop (length psz_str) q), t)
           | None \<Rightarrow> ParseSamiSearch_lines t psz_str))"
  by pat_completeness auto
termination
  by (relation "measure (\<lambda>(t, x). remaining t)") (auto dest: TextGetLine_remaining)

definition ParseSamiSearch :: "text_t \<Rightarrow> string option \<Rightarrow> string \<Rightarrow> (string option) \<times> text_t" where
  "ParseSamiSearch txt psz_start psz_str =
     (case (case psz_start of None \<Rightarrow> None | Some st \<Rightarrow> strcasestr st psz_str) of
        Some q \<Rightarrow> (Some (drop (length psz_str) q), txt)
      | None \<Rightarrow> ParseSamiSearch_lines txt psz_str)"

text \<open>
  The array \<^verbatim>\<open>char text[8192]\<close> is a list of 8192 characters.  \<open>Sami_put\<close> is
  the guarded store at the end of the loop body; it returns \<open>None\<close> when a store
  would fall outside the array.
\<close>

definition Sami_put :: "char \<Rightarrow> nat \<Rightarrow> string \<Rightarrow> (nat \<times> string) option" where
  "Sami_put c i_text text =
     (if c \<noteq> CHR 0x00 \<and> i_text + 1 < 8192
      then (if i_text + 1 < length text
            then Some (i_text + 1, text[i_text := c, i_text + 1 := CHR 0x00])
            else None)
      else Some (i_text, text))"

declare ParseSamiSearch_lines.simps [simp del]

lemma TextGetLine_None: "TextGetLine txt = (None, t) \<Longrightarrow> t = txt"
  by (auto simp: TextGetLine_def split: if_splits)

lemma strcasestr_Some: "strcasestr t n = Some p \<Longrightarrow> length p \<le> length t \<and> length n \<le> length p"
proof (induction t)
  case Nil
  then show ?case by (simp split: if_splits)
next
  case (Cons h hs)
  show ?case
  proof (cases "map tolower n = map tolower (take (length n) (h # hs))")
    case True
    with Cons.prems have p: "p = h # hs" by simp
    from True have "length (map tolower n) = length (map tolower (take (length n) (h # hs)))"
      by (rule arg_cong)
    then have "length n = min (length (h # hs)) (length n)" by (simp only: length_map length_take)
    then have "length n \<le> length (h # hs)" by linarith
    with p show ?thesis by simp
  next
    case False
    with Cons show ?thesis by (simp add: le_SucI)
  qed
qed

lemma ParseSamiSearch_lines_remaining:
  "ParseSamiSearch_lines txt str = (r, t) \<Longrightarrow>
   remaining t < remaining txt \<or> (t = txt \<and> r = None)"
proof (induction "txt" str arbitrary: r t rule: ParseSamiSearch_lines.induct)
  case (1 tx psz_str)
  obtain o1 t1 where g: "TextGetLine tx = (o1, t1)" by (cases "TextGetLine tx")
  show ?case
  proof (cases o1)
    case None
    with g "1.prems" show ?thesis
      by (subst (asm) ParseSamiSearch_lines.simps) (auto dest: TextGetLine_None)
  next
    case (Some p)
    with g have lt: "remaining t1 < remaining tx"
      by (auto intro: TextGetLine_remaining [OF sym])
    show ?thesis
    proof (cases "strcasestr p psz_str")
      case None
      with g Some "1.prems" have "ParseSamiSearch_lines t1 psz_str = (r, t)"
        by (subst (asm) ParseSamiSearch_lines.simps) simp
      from "1.IH" [OF g [symmetric] \<open>o1 = Some p\<close> None this] lt show ?thesis
        by auto
    next
      case (Some q)
      with g \<open>o1 = Some p\<close> "1.prems" lt show ?thesis
        by (subst (asm) ParseSamiSearch_lines.simps) auto
    qed
  qed
qed

definition ptr_size :: "string option \<Rightarrow> nat" where
  "ptr_size s = (case s of None \<Rightarrow> 0 | Some y \<Rightarrow> Suc (length y))"

lemma ParseSamiSearch_measure:
  assumes "ParseSamiSearch txt (Some st) str = (s', t)" and "str \<noteq> []"
  shows "remaining t < remaining txt \<or> (t = txt \<and> ptr_size s' < ptr_size (Some st))"
proof (cases "strcasestr st str")
  case None
  with assms(1) have "ParseSamiSearch_lines txt str = (s', t)"
    by (simp add: ParseSamiSearch_def)
  from ParseSamiSearch_lines_remaining [OF this] show ?thesis
    by (auto simp: ptr_size_def)
next
  case (Some q)
  with assms(1) have s': "s' = Some (drop (length str) q)" and t: "t = txt"
    by (auto simp: ParseSamiSearch_def)
  from strcasestr_Some [OF Some] assms(2) have "length (drop (length str) q) < length st"
    by (cases str) auto
  with s' t show ?thesis by (simp add: ptr_size_def)
qed

function Sami_text :: "text_t \<Rightarrow> string option \<Rightarrow> nat \<Rightarrow> string \<Rightarrow> status \<times> text_t \<times> nat \<times> string" where
  \<comment> \<open>the loop that collects the text; \<open>UNDEFINED\<close> on a store outside the array\<close>
  "Sami_text txt s i_text text =
     (case s of
        None \<Rightarrow> (VLC_SUCCESS, txt, i_text, text)
      | Some [] \<Rightarrow> (case TextGetLine txt of (s', t) \<Rightarrow> Sami_text t s' i_text text)
      | Some (c # r) \<Rightarrow>
          if c = CHR ''<'' then
            (if strncasecmp (c # r) ''<br'' 3 \<noteq> 0 \<and> strcasestr (c # r) ''Start='' \<noteq> None
             then (VLC_SUCCESS, TextPreviousLine txt, i_text, text)
             else (case ParseSamiSearch txt (Some (c # r)) ''>'' of
                     (s', t) \<Rightarrow>
                       (case Sami_put (if strncasecmp (c # r) ''<br'' 3 = 0 then CHR 0x0A
                                       else CHR 0x00) i_text text of
                          None \<Rightarrow> (UNDEFINED, t, i_text, text)
                        | Some (i', text') \<Rightarrow> Sami_text t s' i' text')))
          else if strncmp (c # r) ''&nbsp;'' 6 = 0 then
            (case Sami_put (CHR '' '') i_text text of
               None \<Rightarrow> (UNDEFINED, txt, i_text, text)
             | Some (i', text') \<Rightarrow> Sami_text txt (Some (drop 6 (c # r))) i' text')
          else if c = CHR 0x09 then
            (case Sami_put (CHR '' '') i_text text of
               None \<Rightarrow> (UNDEFINED, txt, i_text, text)
             | Some (i', text') \<Rightarrow> Sami_text txt (Some r) i' text')
          else
            (case Sami_put c i_text text of
               None \<Rightarrow> (UNDEFINED, txt, i_text, text)
             | Some (i', text') \<Rightarrow> Sami_text txt (Some r) i' text'))"
  by pat_completeness auto
termination
proof (relation "measures [\<lambda>(t, s, i, x). remaining t, \<lambda>(t, s, i, x). ptr_size s]", goal_cases)
  case 1
  show ?case by simp
next
  case (2 tx s i_text buf x y z)
  from 2(3) have "remaining z < remaining tx \<or> (z = tx \<and> y = None)"
    by (auto simp: TextGetLine_def remaining_def split: if_splits)
  with 2(1) show ?case by (auto simp: ptr_size_def)
next
  case (3 tx s i_text buf a c r x y)
  have "(x, y) = ParseSamiSearch tx (Some (c # r)) ''>''" by fact
  then have "ParseSamiSearch tx (Some (c # r)) ''>'' = (x, y)" by (rule sym)
  from ParseSamiSearch_measure [OF this] 3 show ?case by auto
qed (auto simp: ptr_size_def)

declare Sami_text.simps [simp del]

definition strdup :: "string \<Rightarrow> string option" where
  \<comment> \<open>the string in a character array: up to the first NUL, if the array holds one\<close>
  "strdup buf = (if CHR 0x00 \<in> set buf then Some (takeWhile (\<lambda>c. c \<noteq> CHR 0x00) buf) else None)"

definition ParseSami :: "demux_t \<Rightarrow> subtitle_t \<Rightarrow> int \<Rightarrow> status \<times> subtitle_t \<times> demux_t" where
  "ParseSami d slot i_idx =
     (case ParseSamiSearch (sys_txt (p_sys d)) None ''Start='' of
        (None, t) \<Rightarrow> (VLC_EGENERIC, slot, set_txt d t)
      | (Some s, t) \<Rightarrow>
          (case strtol0 s of
             (start, s1) \<Rightarrow>
               (case ParseSamiSearch t (Some s1) ''<P'' of
                  (None, t2) \<Rightarrow> (VLC_EGENERIC, slot, set_txt d t2)
                | (Some s2, t2) \<Rightarrow>
                    (case ParseSamiSearch t2 (Some s2) ''>'' of
                       (None, t3) \<Rightarrow> (VLC_EGENERIC, slot, set_txt d t3)
                     | (Some s3, t3) \<Rightarrow>
                         (case Sami_text t3 (Some s3) 0
                                 ((map (stack_junk d) [0..8191])[0 := CHR 0x00]) of
                            (rc, t4, i_text, text) \<Rightarrow>
                              if rc \<noteq> VLC_SUCCESS then (UNDEFINED, slot, set_txt d t4)
                              else (case strdup text of
                                      None \<Rightarrow> (UNDEFINED, slot, set_txt d t4)
                                    | Some tx \<Rightarrow>
                                        (VLC_SUCCESS,
                                         slot\<lparr>i_start := start * 1000, i_stop := 0,
                                              psz_text := tx\<rparr>,
                                         set_txt d t4)))))))"

paragraph \<open>MPSub\<close>

text \<open>
  \<open>ParseMPSub\<close> and \<open>ParseJSS\<close> read and write the static variables, so their
  models take and return a \<open>statics\<close> as well.  The float arithmetic rounds each
  product and each sum to \<^verbatim>\<open>float\<close>.

  The buffer \<^verbatim>\<open>psz_temp\<close> has \<^verbatim>\<open>strlen(s) - 6\<close> bytes.  When the second
  \<^verbatim>\<open>sscanf\<close> returns 1 it has stored \<^verbatim>\<open>strlen(s) - 7\<close> characters and a NUL
  there.  When it returns \<^verbatim>\<open>EOF\<close> (the line is a proper prefix of
  \<^verbatim>\<open>FORMAT=x\<close>, the empty line among them) the test \<^verbatim>\<open>if( sscanf( ... ) )\<close> still
  succeeds and \<^verbatim>\<open>us_strtod\<close> reads a buffer that holds no string (or is
  \<^verbatim>\<open>NULL\<close>): \<open>UNDEFINED\<close>.
\<close>

definition MPSub_fps :: "demux_t \<Rightarrow> string \<Rightarrow> demux_t" where
  "MPSub_fps d psz_temp =
     (let f_fps = to_float (us_strtod psz_temp)
      in if f_fps > 0 \<and> var_sub_fps d \<le> 0 then d\<lparr>var_sub_fps := f_fps\<rparr> else d)"

function MPSub_head :: "statics \<Rightarrow> demux_t \<Rightarrow> subtitle_t \<Rightarrow> status \<times> subtitle_t \<times> demux_t \<times> statics" where
  \<comment> \<open>the first loop; \<open>VLC_SUCCESS\<close> stands for leaving it by \<^verbatim>\<open>break\<close>\<close>
  "MPSub_head st d slot =
     (case TextGetLine (sys_txt (p_sys d)) of
        (None, t) \<Rightarrow> (VLC_EGENERIC, slot, d, st)
      | (Some s, t) \<Rightarrow>
          (case sscanf s ''FORMAT=TIM%c'' of
             (n1, a1) \<Rightarrow>
               if n1 = 1 \<and> arg_chr a1 0 (CHR 0x00) = CHR ''E''
               then (VLC_SUCCESS, slot, set_txt d t, st\<lparr>mpsub_factor := 100\<rparr>)
               else
                 (case sscanf s (''FORMAT=%[^'' @ crlf @ '']'') of
                    (n2, a2) \<Rightarrow>
                      if n2 \<noteq> 0
                      then (if n2 < 0 then (UNDEFINED, slot, set_txt d t, st)
                            else (VLC_SUCCESS, slot, MPSub_fps (set_txt d t) (arg_str a2 0 []),
                                  st\<lparr>mpsub_factor := 1\<rparr>))
                      else
                        (case sscanf s ''%f %f'' of
                           (n3, a3) \<Rightarrow>
                             if n3 = 2
                             then (VLC_SUCCESS,
                                   slot\<lparr>i_start := to_int64 (to_double (10000 *
                                            to_float (mpsub_total st
                                              + to_float (arg_flt a3 0 0 * mpsub_factor st)))),
                                        i_stop := to_int64 (to_double (10000 *
                                            to_float (to_float (mpsub_total st
                                                + to_float (arg_flt a3 0 0 * mpsub_factor st))
                                              + to_float (arg_flt a3 1 0 * mpsub_factor st))))\<rparr>,
                                   set_txt d t,
                                   st\<lparr>mpsub_total :=
                                        to_float (to_float (mpsub_total st
                                            + to_float (arg_flt a3 0 0 * mpsub_factor st))
                                          + to_float (arg_flt a3 1 0 * mpsub_factor st))\<rparr>)
                             else MPSub_head st (set_txt d t) slot))))"
  by pat_completeness auto
termination
  by (relation "measure (\<lambda>(st, d, slot). remaining (sys_txt (p_sys d)))")
     (auto simp: set_txt_def dest: TextGetLine_remaining)

function MPSub_text :: "text_t \<Rightarrow> string \<Rightarrow> (string option) \<times> text_t" where
  "MPSub_text txt tx =
     (case TextGetLine txt of
        (None, t) \<Rightarrow> (None, t)
      | (Some s, t) \<Rightarrow>
          if int (length s) = 0 then (Some tx, t) else MPSub_text t (tx @ s @ [CHR 0x0A]))"
  by pat_completeness auto
termination
  by (relation "measure (\<lambda>(t, x). remaining t)") (auto dest: TextGetLine_remaining)

definition ParseMPSub ::
  "statics \<Rightarrow> demux_t \<Rightarrow> subtitle_t \<Rightarrow> int \<Rightarrow> status \<times> subtitle_t \<times> demux_t \<times> statics" where
  "ParseMPSub st d slot i_idx =
     (case MPSub_head st d slot of
        (rc, slot1, d1, st1) \<Rightarrow>
          if rc \<noteq> VLC_SUCCESS then (rc, slot1, d1, st1)
          else (case MPSub_text (sys_txt (p_sys d1)) [] of
                  (None, t) \<Rightarrow> (VLC_EGENERIC, slot1, set_txt d1 t, st1)
                | (Some tx, t) \<Rightarrow> (VLC_SUCCESS, slot1\<lparr>psz_text := tx\<rparr>, set_txt d1 t, st1)))"

paragraph \<open>JacoSub\<close>

definition cdiv :: "int \<Rightarrow> int \<Rightarrow> int" where
  \<comment> \<open>the division of C, towards zero; the divisor is not 0\<close>
  "cdiv a b = sgn a * sgn b * (\<bar>a\<bar> div \<bar>b\<bar>)"

definition char_at :: "string \<Rightarrow> nat \<Rightarrow> char" where
  \<comment> \<open>\<open>s[k]\<close> for \<open>k \<le> strlen(s)\<close>: the terminator at \<open>k = strlen(s)\<close>\<close>
  "char_at s k = (if k < length s then s ! k else CHR 0x00)"

definition JSS_timing :: "statics \<Rightarrow> string \<Rightarrow> (status \<times> int \<times> int \<times> string) option" where
  \<comment> \<open>the two timing forms; \<open>UNDEFINED\<close> is the division by a resolution of 0\<close>
  "JSS_timing st s =
     (case sscanf s (''%d:%d:%d.%d %d:%d:%d.%d %[^'' @ lfcr @ '']'') of
        (n1, a1) \<Rightarrow>
          if n1 = 9
          then (if jss_time_resolution st = 0 then Some (UNDEFINED, 0, 0, [])
                else Some (VLC_SUCCESS,
                       ((arg_int a1 0 0 * 3600 + arg_int a1 1 0 * 60 + arg_int a1 2 0)
                        + cdiv (arg_int a1 3 0 + jss_time_shift st) (jss_time_resolution st))
                       * 1000000,
                       ((arg_int a1 4 0 * 3600 + arg_int a1 5 0 * 60 + arg_int a1 6 0)
                        + cdiv (arg_int a1 7 0 + jss_time_shift st) (jss_time_resolution st))
                       * 1000000,
                       arg_str a1 8 []))
          else (case sscanf s (''@%d @%d %[^'' @ lfcr @ '']'') of
                  (n2, a2) \<Rightarrow>
                    if n2 = 3
                    then (if jss_time_resolution st = 0 then Some (UNDEFINED, 0, 0, [])
                          else Some (VLC_SUCCESS,
                                 to_int64 (to_double (of_int
                                   (cdiv (arg_int a2 0 0 + jss_time_shift st)
                                         (jss_time_resolution st)) * 1000000)),
                                 to_int64 (to_double (of_int
                                   (cdiv (arg_int a2 1 0 + jss_time_shift st)
                                         (jss_time_resolution st)) * 1000000)),
                                 arg_str a2 2 []))
                    else None))"

definition JSS_shift :: "statics \<Rightarrow> int \<Rightarrow> int \<Rightarrow> int \<Rightarrow> int \<Rightarrow> int \<Rightarrow> statics" where
  \<comment> \<open>\<^verbatim>\<open>jss_time_shift = ( ( h * 3600 + m * 60 + sec ) * jss_time_resolution + f ) * inv;\<close>\<close>
  "JSS_shift st h m sec f sg =
     st\<lparr>jss_time_shift := ((h * 3600 + m * 60 + sec) * jss_time_resolution st + f) * sg\<rparr>"

definition JSS_directive :: "statics \<Rightarrow> string \<Rightarrow> status \<times> statics" where
  \<comment> \<open>a line that starts with \<^verbatim>\<open>#\<close>; \<open>UNDEFINED\<close> when \<^verbatim>\<open>&psz_text[shift]\<close> is past the string\<close>
  "JSS_directive st s =
     (if toupper (char_at s 1) = CHR ''S'' then
        (if (if isalpha (char_at s 2) then 6 else 2) > length s then (UNDEFINED, st)
         else
           (case sscanf (drop (if isalpha (char_at s 2) then 6 else 2) s) ''%d'' of
              (n0, a0) \<Rightarrow>
                if n0 = 0 then (VLC_SUCCESS, st)
                else
                  (case sscanf (drop (if isalpha (char_at s 2) then 6 else 2) s) ''%*d:%d'' of
                     (n1, a1) \<Rightarrow>
                       if n1 \<noteq> 0 then
                         (case sscanf (drop (if isalpha (char_at s 2) then 6 else 2) s)
                                 ''%*d:%*d:%d'' of
                            (n2, a2) \<Rightarrow>
                              if n2 \<noteq> 0 then
                                (case sscanf (drop (if isalpha (char_at s 2) then 6 else 2) s)
                                        ''%*d:%*d:%*d.%d'' of
                                   (n3, a3) \<Rightarrow>
                                     (VLC_SUCCESS,
                                      JSS_shift st \<bar>arg_int a0 0 0\<bar> (arg_int a1 0 0)
                                        (arg_int a2 0 1) (arg_int a3 0 1)
                                        (if arg_int a0 0 0 < 0 then - 1 else 1)))
                              else
                                (case sscanf (drop (if isalpha (char_at s 2) then 6 else 2) s)
                                        ''%d:%d.%d'' of
                                   (n3, a3) \<Rightarrow>
                                     (VLC_SUCCESS,
                                      JSS_shift st 0
                                        (arg_int a3 0 (arg_int a1 0 0)
                                         * (if arg_int a0 0 0 < 0 then - 1 else 1))
                                        (arg_int a3 1 (arg_int a2 0 1)) (arg_int a3 2 1)
                                        (if arg_int a0 0 0 < 0 then - 1 else 1))))
                       else
                         (case sscanf (drop (if isalpha (char_at s 2) then 6 else 2) s)
                                 ''%d.%d'' of
                            (n3, a3) \<Rightarrow>
                              (VLC_SUCCESS,
                               JSS_shift st 0 0
                                 (arg_int a3 0 1 * (if arg_int a0 0 0 < 0 then - 1 else 1))
                                 (arg_int a3 1 1)
                                 (if arg_int a0 0 0 < 0 then - 1 else 1))))))
      else if toupper (char_at s 1) = CHR ''T'' then
        (if (if isalpha (char_at s 2) then 8 else 2) > length s then (UNDEFINED, st)
         else (VLC_SUCCESS,
               st\<lparr>jss_time_resolution :=
                    arg_int (snd (sscanf (drop (if isalpha (char_at s 2) then 8 else 2) s) ''%d''))
                      0 (jss_time_resolution st)\<rparr>))
      else (VLC_SUCCESS, st))"

text \<open>
  The loop that copies \<open>psz_text\<close> to \<open>psz_text2\<close>.  \<open>rest\<close> is the string at
  \<open>psz_text\<close>, \<open>out\<close> what has been stored through \<open>psz_text2\<close>.  After
  \<^verbatim>\<open>\C\<close> or \<^verbatim>\<open>\F\<close> the pointer moves three places; when only two characters
  are left it passes the terminator: \<open>UNDEFINED\<close>.
\<close>

function JSS_strip :: "text_t \<Rightarrow> int \<Rightarrow> string \<Rightarrow> string \<Rightarrow> status \<times> string \<times> int \<times> text_t" where
  "JSS_strip txt n_comment rest out =
     (case rest of
        [] \<Rightarrow> (VLC_SUCCESS, out, n_comment, txt)
      | c # r \<Rightarrow>
          if c = CHR 0x0A \<or> c = CHR 0x0D then (VLC_SUCCESS, out, n_comment, txt)
          else if c = CHR ''{'' then JSS_strip txt (n_comment + 1) r out
          else if c = CHR ''}'' then
            (if n_comment \<noteq> 0
             then JSS_strip txt 0 (if char_at r 0 = CHR '' '' then tl r else r) out
             else JSS_strip txt n_comment r out)
          else if c = CHR ''~'' then
            JSS_strip txt n_comment r (if n_comment = 0 then out @ '' '' else out)
          else if c = CHR '' '' \<or> c = CHR 0x09 then
            (if char_at r 0 = CHR '' '' \<or> char_at r 0 = CHR 0x09
             then JSS_strip txt n_comment r out
             else JSS_strip txt n_comment r (if n_comment = 0 then out @ '' '' else out))
          else if c = CHR 0x5C then
            (if char_at r 0 = CHR ''n'' then JSS_strip txt n_comment (tl r) (out @ [CHR 0x0A])
             else if toupper (char_at r 0) = CHR ''C'' \<or> toupper (char_at r 0) = CHR ''F'' then
               (if tl r = [] then (UNDEFINED, out, n_comment, txt)
                else JSS_strip txt n_comment (tl (tl r)) out)
             else if char_at r 0 \<in> set ''BbIiUuDN'' then JSS_strip txt n_comment (tl r) out
             else if char_at r 0 = CHR ''~'' \<or> char_at r 0 = CHR ''{'' \<or> char_at r 0 = CHR 0x5C
             then JSS_strip txt n_comment (tl r)
                    (if n_comment = 0 then out @ [char_at r 0] else out)
             else if char_at r 0 = CHR 0x0D \<or> char_at r 0 = CHR 0x0A \<or> char_at r 0 = CHR 0x00
             then (case TextGetLine txt of
                     (None, t) \<Rightarrow> (VLC_EGENERIC, out, n_comment, t)
                   | (Some s2, t) \<Rightarrow>
                       JSS_strip t n_comment r (if n_comment = 0 then out @ [c] else out))
             else JSS_strip txt n_comment r (if n_comment = 0 then out @ [c] else out))
          else JSS_strip txt n_comment r (if n_comment = 0 then out @ [c] else out))"
  by pat_completeness auto
termination
  by (relation "measure (\<lambda>(t, n, rest, out). length rest)") auto

definition JSS_text :: "statics \<Rightarrow> text_t \<Rightarrow> string \<Rightarrow> status \<times> string \<times> statics \<times> text_t" where
  \<comment> \<open>from \<^verbatim>\<open>/* Skip the blanks */\<close> to the end of the loop body\<close>
  "JSS_text st txt tx =
     (let p1 = dropWhile (\<lambda>c. c = CHR '' '' \<or> c = CHR 0x09) tx
      in if (isalpha (char_at p1 0) \<or> char_at p1 0 = CHR ''['') \<and> CHR '' '' \<notin> set p1
         then (UNDEFINED, [], st, txt)
         else
           (case JSS_strip txt (i_comment st)
                   (dropWhile (\<lambda>c. c = CHR '' '' \<or> c = CHR 0x09)
                      (if isalpha (char_at p1 0) \<or> char_at p1 0 = CHR ''[''
                       then dropWhile (\<lambda>c. c \<noteq> CHR '' '') p1 else p1)) [] of
              (rc, out, n, t) \<Rightarrow> (rc, out, st\<lparr>i_comment := n\<rparr>, t)))"

function ParseJSS_loop :: "statics \<Rightarrow> demux_t \<Rightarrow> subtitle_t \<Rightarrow> status \<times> subtitle_t \<times> demux_t \<times> statics" where
  "ParseJSS_loop st d slot =
     (case TextGetLine (sys_txt (p_sys d)) of
        (None, t) \<Rightarrow> (VLC_EGENERIC, slot, d, st)
      | (Some s, t) \<Rightarrow>
          (case JSS_timing st s of
             Some (rc, start, stop, tx) \<Rightarrow>
               if rc \<noteq> VLC_SUCCESS then (UNDEFINED, slot, set_txt d t, st)
               else (case JSS_text st t tx of
                       (rc', out, st', t') \<Rightarrow>
                         if rc' = VLC_SUCCESS
                         then (VLC_SUCCESS,
                               slot\<lparr>i_start := start, i_stop := stop, psz_text := out\<rparr>,
                               set_txt d t', st')
                         else (rc', slot\<lparr>i_start := start, i_stop := stop\<rparr>, set_txt d t', st'))
           | None \<Rightarrow>
               if char_at s 0 = CHR ''#''
               then (case JSS_directive st s of
                       (rc, st') \<Rightarrow>
                         if rc \<noteq> VLC_SUCCESS then (UNDEFINED, slot, set_txt d t, st')
                         else ParseJSS_loop st' (set_txt d t) slot)
               else ParseJSS_loop st (set_txt d t) slot))"
  by pat_completeness auto
termination
  by (relation "measure (\<lambda>(st, d, slot). remaining (sys_txt (p_sys d)))")
     (auto simp: set_txt_def dest: TextGetLine_remaining)

definition ParseJSS ::
  "statics \<Rightarrow> demux_t \<Rightarrow> subtitle_t \<Rightarrow> int \<Rightarrow> status \<times> subtitle_t \<times> demux_t \<times> statics" where
  "ParseJSS st d slot i_idx = ParseJSS_loop st d slot"

declare MPSub_head.simps [simp del] MPSub_text.simps [simp del] JSS_strip.simps [simp del]
  ParseJSS_loop.simps [simp del]

subsection \<open>Open\<close>

type_synonym parser =
  "statics \<Rightarrow> demux_t \<Rightarrow> subtitle_t \<Rightarrow> int \<Rightarrow> status \<times> subtitle_t \<times> demux_t \<times> statics"

definition no_statics ::
  "(demux_t \<Rightarrow> subtitle_t \<Rightarrow> int \<Rightarrow> status \<times> subtitle_t \<times> demux_t) \<Rightarrow> parser" where
  \<comment> \<open>a parser that does not touch the static variables\<close>
  "no_statics f st d slot i_idx = (case f d slot i_idx of (rc, slot', d') \<Rightarrow> (rc, slot', d', st))"

text \<open>
  The table \<^verbatim>\<open>sub_read_subtitle_function\<close>: type name, type, printed name,
  parser.  The C table ends with an entry for \<open>SUB_TYPE_UNKNOWN\<close> whose name and
  parser are \<^verbatim>\<open>NULL\<close>; the searches below stop there.
\<close>

definition sub_read_subtitle_function :: "(string \<times> sub_type \<times> string \<times> parser) list" where
  "sub_read_subtitle_function =
     [(''microdvd'', SUB_TYPE_MICRODVD, ''MicroDVD'', no_statics ParseMicroDvd),
      (''subrip'', SUB_TYPE_SUBRIP, ''SubRIP'', no_statics ParseSubRip),
      (''subviewer'', SUB_TYPE_SUBVIEWER, ''SubViewer'', no_statics ParseSubViewer),
      (''ssa1'', SUB_TYPE_SSA1, ''SSA-1'', no_statics ParseSSA),
      (''ssa2-4'', SUB_TYPE_SSA2_4, ''SSA-2/3/4'', no_statics ParseSSA),
      (''ass'', SUB_TYPE_ASS, ''SSA/ASS'', no_statics ParseSSA),
      (''vplayer'', SUB_TYPE_VPLAYER, ''VPlayer'', no_statics ParseVplayer),
      (''sami'', SUB_TYPE_SAMI, ''SAMI'', no_statics ParseSami),
      (''dvdsubtitle'', SUB_TYPE_DVDSUBTITLE, ''DVDSubtitle'', no_statics ParseDVDSubtitle),
      (''mpl2'', SUB_TYPE_MPL2, ''MPL2'', no_statics ParseMPL2),
      (''aqt'', SUB_TYPE_AQT, ''AQTitle'', no_statics ParseAQT),
      (''pjs'', SUB_TYPE_PJS, ''PhoenixSub'', no_statics ParsePJS),
      (''mpsub'', SUB_TYPE_MPSUB, ''MPSub'', ParseMPSub),
      (''jacosub'', SUB_TYPE_JACOSUB, ''JacoSub'', ParseJSS)]"

fun type_by_name :: "(string \<times> sub_type \<times> string \<times> parser) list \<Rightarrow> string \<Rightarrow> sub_type" where
  \<comment> \<open>the loop over the table that compares \<open>psz_type_name\<close> with \<open>psz_type\<close>\<close>
  "type_by_name [] psz_type = SUB_TYPE_UNKNOWN"
| "type_by_name ((nm, ty, pn, pf) # rest) psz_type =
     (if nm = psz_type then ty else type_by_name rest psz_type)"

fun pf_read_of :: "(string \<times> sub_type \<times> string \<times> parser) list \<Rightarrow> sub_type \<Rightarrow> parser option" where
  \<comment> \<open>the loop over the table that compares \<open>i_type\<close>; the last C entry has no parser\<close>
  "pf_read_of [] ty0 = None"
| "pf_read_of ((nm, ty, pn, pf) # rest) ty0 = (if ty = ty0 then Some pf else pf_read_of rest ty0)"

text \<open>
  The signature tests of the probe on one line, in the order of the
  \<^verbatim>\<open>if\<close> \<^verbatim>\<open>else if\<close> chain.  The result is the type the line sets and whether the
  branch ends with \<^verbatim>\<open>break\<close>.
\<close>

definition probe_line :: "string \<Rightarrow> (sub_type \<times> bool) option" where
  "probe_line s =
     (if strcasestr s ''<SAMI>'' \<noteq> None then Some (SUB_TYPE_SAMI, True)
      else if fst (sscanf s ''{%d}{%d}'') = 2 \<or> fst (sscanf s ''{%d}{}'') = 1
        then Some (SUB_TYPE_MICRODVD, True)
      else if fst (sscanf s ''%d:%d:%d,%d --> %d:%d:%d,%d'') = 8 then Some (SUB_TYPE_SUBRIP, True)
      else if strncasecmp s ''!: This is a Sub Station Alpha v1'' 33 = 0
        then Some (SUB_TYPE_SSA1, True)
      else if strncasecmp s ''ScriptType: v4.00+'' 18 = 0 then Some (SUB_TYPE_ASS, True)
      else if strncasecmp s ''ScriptType: v4.00'' 17 = 0 then Some (SUB_TYPE_SSA2_4, True)
      else if strncasecmp s ''Dialogue: Marked'' 16 = 0 then Some (SUB_TYPE_SSA2_4, True)
      else if strncasecmp s ''Dialogue:'' 9 = 0 then Some (SUB_TYPE_ASS, True)
      else if strcasestr s ''[INFORMATION]'' \<noteq> None then Some (SUB_TYPE_SUBVIEWER, True)
      else if fst (sscanf s ''%d:%d:%d.%d %d:%d:%d'') = 7 \<or> fst (sscanf s ''@%d @%d'') = 2
        then Some (SUB_TYPE_JACOSUB, False)
      else if fst (sscanf s ''%d:%d:%d:'') = 3 \<or> fst (sscanf s ''%d:%d:%d '') = 3
        then Some (SUB_TYPE_VPLAYER, True)
      else if fst (sscanf s ''{T %d:%d:%d:%d'') = 4 then Some (SUB_TYPE_DVDSUBTITLE, True)
      else if fst (sscanf s ''[%d][%d]'') = 2 \<or> fst (sscanf s ''[%d][]'') = 1
        then Some (SUB_TYPE_MPL2, True)
      else if fst (sscanf s ''FORMAT=%d'') = 1
              \<or> (fst (sscanf s ''FORMAT=TIM%c'') = 1
                  \<and> arg_chr (snd (sscanf s ''FORMAT=TIM%c'')) 0 (CHR 0x00) = CHR ''E'')
        then Some (SUB_TYPE_MPSUB, False)
      else if fst (sscanf s ''-->> %d'') = 1 then Some (SUB_TYPE_AQT, False)
      else if fst (sscanf s ''%d,%d,'') = 2 then Some (SUB_TYPE_PJS, False)
      else None)"

function probe_loop :: "int \<Rightarrow> stream_t \<Rightarrow> sub_type \<Rightarrow> sub_type \<times> stream_t" where
  \<comment> \<open>\<^verbatim>\<open>for( i_try = 0; i_try < 256; i_try++ )\<close>\<close>
  "probe_loop i_try strm ty =
     (if i_try < 256
      then (case stream_ReadLine strm of
              (None, strm') \<Rightarrow> (ty, strm')
            | (Some s, strm') \<Rightarrow>
                (case probe_line s of
                   None \<Rightarrow> probe_loop (i_try + 1) strm' ty
                 | Some (ty', brk) \<Rightarrow>
                     if brk then (ty', strm') else probe_loop (i_try + 1) strm' ty'))
      else (ty, strm))"
  by pat_completeness auto
termination
  by (relation "measure (\<lambda>(i, strm, ty). nat (256 - i))") auto

declare probe_loop.simps [simp del]

text \<open>
  The loop that calls the parser until it fails.  The table of subtitles grows
  without a bound of its own (\<^verbatim>\<open>realloc\<close> is taken to succeed), and a SAMI
  text can make the parser return the same subtitle for ever, so the loop need not
  end: it is a partial function, and \<open>None\<close> is the run that does not return.
\<close>

partial_function (option) parse_loop ::
  "parser \<Rightarrow> demux_t \<Rightarrow> statics \<Rightarrow> (status \<times> demux_t \<times> statics) option" where
  "parse_loop pf d st =
     (case pf st d (fresh_slot d (i_subtitles (p_sys d))) (i_subtitles (p_sys d)) of
        (rc, slot, d', st') \<Rightarrow>
          if rc \<noteq> VLC_SUCCESS then Some (rc, d', st')
          else parse_loop pf
                 (d'\<lparr>p_sys := (p_sys d')\<lparr>subtitle := subtitle (p_sys d') @ [slot],
                                         i_subtitles := i_subtitles (p_sys d') + 1\<rparr>\<rparr>)
                 st')"

declare parse_loop.simps [code]

definition fps_to_usec :: "rat \<Rightarrow> int" where
  \<comment> \<open>\<^verbatim>\<open>(int64_t)( (float)1000000 / f_fps )\<close>\<close>
  "fps_to_usec f_fps = to_int64 (to_float (1000000 / f_fps))"

definition Open_init :: "demux_t \<Rightarrow> demux_sys_t" where
  \<comment> \<open>the fields set after \<^verbatim>\<open>malloc\<close>, and the two frame rates\<close>
  "Open_init d =
     (let sys0 = (p_sys d)\<lparr>psz_header := None, i_subtitle := 0, i_subtitles := 0,
                            subtitle := [], i_microsecperframe := 40000\<rparr>;
          sys1 = (if to_float (var_sub_original_fps d) \<ge> 1
                  then sys0\<lparr>i_microsecperframe := fps_to_usec (to_float (var_sub_original_fps d))\<rparr>
                  else sys0)
      in if to_float (var_sub_fps d) \<ge> 1
         then sys1\<lparr>i_microsecperframe := fps_to_usec (to_float (var_sub_fps d))\<rparr>
         else sys1)"

definition Open_type :: "demux_t \<Rightarrow> sub_type \<times> stream_t" where
  \<comment> \<open>\<^verbatim>\<open>/* Get or probe the type */\<close>: the type and the stream afterwards\<close>
  "Open_type d =
     (let ty0 = (if var_sub_type d \<noteq> [] then type_by_name sub_read_subtitle_function (var_sub_type d)
                 else SUB_TYPE_UNKNOWN)
      in if ty0 = SUB_TYPE_UNKNOWN
         then (case probe_loop 0 (p_stream d) SUB_TYPE_UNKNOWN of
                 (ty, strm) \<Rightarrow> (ty, snd (stream_Seek strm 0)))
         else (ty0, p_stream d))"

definition Open_length :: "demux_sys_t \<Rightarrow> demux_sys_t" where
  \<comment> \<open>\<^verbatim>\<open>/* Fix subtitle (order and time) *** */\<close>\<close>
  "Open_length sys =
     sys\<lparr>i_subtitle := 0,
         i_length :=
           (if i_subtitles sys > 0
            then (if i_stop (subtitle sys ! nat (i_subtitles sys - 1)) \<le> 0
                  then i_start (subtitle sys ! nat (i_subtitles sys - 1)) + 1
                  else i_stop (subtitle sys ! nat (i_subtitles sys - 1)))
            else 0)\<rparr>"

definition Open_finish :: "status \<times> demux_t \<times> statics \<Rightarrow> status \<times> demux_t \<times> statics" where
  \<comment> \<open>after the parse loop: \<open>TextUnload\<close>, the length, \<^verbatim>\<open>return VLC_SUCCESS\<close>\<close>
  "Open_finish r =
     (case r of
        (rc, d, st) \<Rightarrow>
          if rc = UNDEFINED then (UNDEFINED, d, st)
          else (case TextUnload (sys_txt (p_sys d)) of
                  (rcu, t) \<Rightarrow>
                    if rcu = UNDEFINED then (UNDEFINED, d, st)
                    else (VLC_SUCCESS, d\<lparr>p_sys := Open_length ((p_sys d)\<lparr>sys_txt := t\<rparr>)\<rparr>, st)))"

definition Open :: "demux_t \<Rightarrow> statics \<Rightarrow> (status \<times> demux_t \<times> statics) option" where
  "Open d st =
     (if \<not> b_force d then Some (VLC_EGENERIC, d, st)
      else
        (case Open_type d of
           (ty, strm) \<Rightarrow>
             if ty = SUB_TYPE_UNKNOWN
             then Some (VLC_EGENERIC, d\<lparr>p_stream := strm, p_sys := (Open_init d)\<lparr>i_type := ty\<rparr>\<rparr>, st)
             else
               (case pf_read_of sub_read_subtitle_function ty of
                  None \<Rightarrow> Some (UNDEFINED, d, st)
                | Some pf \<Rightarrow>
                    (case TextLoad (sys_txt (Open_init d)) strm of
                       (rcl, t, strm') \<Rightarrow>
                         map_option Open_finish
                           (parse_loop pf
                              (d\<lparr>p_stream := strm',
                                  p_sys := (Open_init d)\<lparr>i_type := ty, sys_txt := t\<rparr>\<rparr>)
                              st)))))"

subsection \<open>Control\<close>

datatype query =
  DEMUX_GET_LENGTH | DEMUX_GET_TIME | DEMUX_SET_TIME int | DEMUX_GET_POSITION
| DEMUX_SET_POSITION rat | DEMUX_SET_NEXT_DEMUX_TIME int | DEMUX_GET_FPS | DEMUX_GET_META
| DEMUX_GET_ATTACHMENTS | DEMUX_GET_TITLE_INFO | DEMUX_HAS_UNSUPPORTED_META | DEMUX_OTHER int

text \<open>
  A query carries the arguments that \<^verbatim>\<open>va_arg\<close> reads by value; what the call
  stores through a pointer argument is the \<open>answer\<close>.  \<open>NonFinite\<close> is the
  quotient of a division by 0.0, which the rationals do not hold.
\<close>

datatype answer = NoAnswer | I64 int | Double rat | NonFinite

function seek_loop :: "demux_sys_t \<Rightarrow> int \<Rightarrow> demux_sys_t" where
  \<comment> \<open>\<^verbatim>\<open>while( i_subtitle < i_subtitles && subtitle[i_subtitle].i_start < i64 ) i_subtitle++;\<close>\<close>
  "seek_loop sys i64 =
     (if i_subtitle sys < i_subtitles sys \<and> i_start (subtitle sys ! nat (i_subtitle sys)) < i64
      then seek_loop (sys\<lparr>i_subtitle := i_subtitle sys + 1\<rparr>) i64
      else sys)"
  by pat_completeness auto
termination
  by (relation "measure (\<lambda>(sys, q). nat (i_subtitles sys - i_subtitle sys))") auto

declare seek_loop.simps [simp del]

definition seek_to :: "demux_t \<Rightarrow> int \<Rightarrow> status \<times> answer \<times> demux_t" where
  \<comment> \<open>the body shared by \<open>DEMUX_SET_TIME\<close> and \<open>DEMUX_SET_POSITION\<close>\<close>
  "seek_to d i64 =
     (let sys = seek_loop ((p_sys d)\<lparr>i_subtitle := 0\<rparr>) i64
      in (if i_subtitle sys \<ge> i_subtitles sys then VLC_EGENERIC else VLC_SUCCESS,
          NoAnswer, d\<lparr>p_sys := sys\<rparr>))"

fun Control :: "demux_t \<Rightarrow> query \<Rightarrow> status \<times> answer \<times> demux_t" where
  "Control d DEMUX_GET_LENGTH = (VLC_SUCCESS, I64 (i_length (p_sys d)), d)"
| "Control d DEMUX_GET_TIME =
     (if i_subtitle (p_sys d) < i_subtitles (p_sys d)
      then (VLC_SUCCESS, I64 (i_start (subtitle (p_sys d) ! nat (i_subtitle (p_sys d)))), d)
      else (VLC_EGENERIC, NoAnswer, d))"
| "Control d (DEMUX_SET_TIME i64) = seek_to d i64"
| "Control d DEMUX_GET_POSITION =
     (if i_subtitle (p_sys d) \<ge> i_subtitles (p_sys d) then (VLC_SUCCESS, Double 1, d)
      else if i_subtitles (p_sys d) > 0
      then (if i_length (p_sys d) = 0 then (VLC_SUCCESS, NonFinite, d)
            else (VLC_SUCCESS,
                  Double (to_double
                    (to_double (of_int (i_start (subtitle (p_sys d) ! nat (i_subtitle (p_sys d)))))
                     / to_double (of_int (i_length (p_sys d))))), d))
      else (VLC_SUCCESS, Double 0, d))"
| "Control d (DEMUX_SET_POSITION f) =
     seek_to d (to_int64 (to_double (f * to_double (of_int (i_length (p_sys d))))))"
| "Control d (DEMUX_SET_NEXT_DEMUX_TIME t) =
     (VLC_SUCCESS, NoAnswer, d\<lparr>p_sys := (p_sys d)\<lparr>i_next_demux_date := t\<rparr>\<rparr>)"
| "Control d q = (VLC_EGENERIC, NoAnswer, d)"

subsection \<open>Sample sessions\<close>

text \<open>
  Concrete inputs for the closed theorems below: a demuxer over a stream of
  given lines, a text as \<open>TextLoad\<close> leaves it, and the observable part of what
  \<open>Open\<close> returns.  \<open>peek\<close> is the list of lines from the cursor on and
  \<open>advance\<close> moves the cursor.
\<close>

definition blank_sys :: demux_sys_t where
  "blank_sys = \<lparr>i_type = SUB_TYPE_UNKNOWN,
      sys_txt = \<lparr>i_line_count = 0, i_line = 0, line = [], line_freed = False\<rparr>,
      i_next_demux_date = 0, i_microsecperframe = 0, psz_header = None, i_subtitle = 0,
      i_subtitles = 0, subtitle = [], i_length = 0\<rparr>"

definition session :: "string \<Rightarrow> string list \<Rightarrow> demux_t" where
  "session ty ls = \<lparr>b_force = True,
      p_stream = \<lparr>s_lines = ls, s_pos = 0, s_seekable = True\<rparr>,
      var_sub_original_fps = 0, var_sub_fps = 0, var_sub_type = ty, p_sys = blank_sys,
      fresh_slot = (\<lambda>n. \<lparr>i_start = 0, i_stop = 0, psz_text = []\<rparr>),
      stack_junk = (\<lambda>k. CHR ''?'')\<rparr>"

definition outcome :: "(status \<times> demux_t \<times> statics) option \<Rightarrow> (status \<times> subtitle_t list \<times> int \<times> string option \<times> statics) option" where
  "outcome r = map_option (\<lambda>(rc, d, st). (rc, subtitle (p_sys d), i_length (p_sys d), psz_header (p_sys d), st)) r"

definition loaded :: "string list \<Rightarrow> text_t" where
  "loaded ls = \<lparr>i_line_count = int (length ls), i_line = 0, line = ls, line_freed = False\<rparr>"

definition peek :: "text_t \<Rightarrow> string list" where
  "peek txt = drop (nat (i_line txt)) (line txt)"

definition advance :: "text_t \<Rightarrow> int \<Rightarrow> text_t" where
  "advance txt n = txt\<lparr>i_line := i_line txt + n\<rparr>"

definition slot0 :: subtitle_t where
  "slot0 = \<lparr>i_start = 0, i_stop = 0, psz_text = []\<rparr>"

definition with_usec :: "demux_t \<Rightarrow> int \<Rightarrow> demux_t" where
  "with_usec d u = d\<lparr>p_sys := (p_sys d)\<lparr>i_microsecperframe := u\<rparr>\<rparr>"

definition with_type :: "demux_t \<Rightarrow> sub_type \<Rightarrow> demux_t" where
  "with_type d ty = d\<lparr>p_sys := (p_sys d)\<lparr>i_type := ty\<rparr>\<rparr>"

definition microdvd_lines :: "string list" where
  "microdvd_lines = [''{1}{1}23.976'', ''{100}{200}Hello'']"

definition ass_long_layer :: "string list" where
  "ass_long_layer = [''Dialogue: 1234567890,0:00:01.00,0:00:02.00,Default,,0,0,0,,Hi'']"

definition subrip_lines :: "string list" where
  "subrip_lines = [''00:00:01,000 --> 00:00:02,500'', ''Line one'', ''Line two'', []]"

definition subrip_demo :: demux_t where
  "subrip_demo = set_txt (session ''subrip'' []) (loaded subrip_lines)"

definition microdvd_demo :: demux_t where
  "microdvd_demo = set_txt (session ''microdvd'' []) (loaded microdvd_lines)"

definition microdvd_demo_override :: demux_t where
  \<comment> \<open>\<^verbatim>\<open>sub-fps\<close> set to 25, and the frame duration \<open>Open\<close> derives from it\<close>
  "microdvd_demo_override = with_usec (microdvd_demo\<lparr>var_sub_fps := 25\<rparr>) 40000"

subsection \<open>Notions used in the statements\<close>

text \<open>
  \<open>add_cue\<close> is what the parse loop of \<open>Open\<close> does with a parsed subtitle.
  \<open>duration_of\<close> is the total duration as the specification words it: the stop
  time of the last cue, its start time plus one when that stop is not positive,
  and 0 without cues.
\<close>

definition add_cue :: "demux_t \<Rightarrow> subtitle_t \<Rightarrow> demux_t" where
  "add_cue d c = d\<lparr>p_sys := (p_sys d)\<lparr>subtitle := subtitle (p_sys d) @ [c],
                                      i_subtitles := i_subtitles (p_sys d) + 1\<rparr>\<rparr>"

definition duration_of :: "subtitle_t list \<Rightarrow> int" where
  \<comment> \<open>the duration as the specification words it\<close>
  "duration_of cues =
     (if cues = [] then 0
      else if i_stop (last cues) \<le> 0 then i_start (last cues) + 1 else i_stop (last cues))"

definition same_cues :: "demux_t \<Rightarrow> demux_t \<Rightarrow> bool" where
  "same_cues d d' = (subtitle (p_sys d') = subtitle (p_sys d) \<and>
                     i_subtitles (p_sys d') = i_subtitles (p_sys d) \<and>
                     fresh_slot d' = fresh_slot d)"

definition keeps_cues :: "parser \<Rightarrow> bool" where
  "keeps_cues pf = (\<forall>st d slot i_idx. same_cues d (fst (snd (snd (pf st d slot i_idx)))))"

definition cues_ok :: "demux_t \<Rightarrow> bool" where
  "cues_ok d = (i_subtitles (p_sys d) = int (length (subtitle (p_sys d))))"

definition first_at :: "subtitle_t list \<Rightarrow> int \<Rightarrow> nat" where
  \<comment> \<open>the index of the first cue that starts at or after \<open>q\<close>, the number of cues if there is none\<close>
  "first_at cues q = length (takeWhile (\<lambda>c. i_start c < q) cues)"

definition seek_demo :: demux_t where
  "seek_demo = (session ''subrip'' [])\<lparr>p_sys := blank_sys\<lparr>i_subtitles := 3, i_length := 3500,
      subtitle := [\<lparr>i_start = 1000, i_stop = 1500, psz_text = ''a''\<rparr>,
                   \<lparr>i_start = 2000, i_stop = 2500, psz_text = ''b''\<rparr>,
                   \<lparr>i_start = 3000, i_stop = 3500, psz_text = ''c''\<rparr>]\<rparr>\<rparr>"

text \<open>
  The SAMI parser with a text of any length, as the specification describes the
  collection of the text before the cap applies: \<open>Sami_collect\<close> appends where
  the loop of \<open>ParseSami\<close> stores into its array.  \<open>buf_holds\<close> relates the
  array and its index to the text collected so far, and \<open>sami_long\<close> is a
  session whose only cue has \<open>n\<close> letters.
\<close>

definition Sami_add :: "char \<Rightarrow> string \<Rightarrow> string" where
  "Sami_add c acc = (if c = CHR 0x00 then acc else acc @ [c])"

function Sami_collect :: "text_t \<Rightarrow> string option \<Rightarrow> string \<Rightarrow> text_t \<times> string" where
  "Sami_collect txt s acc =
     (case s of
        None \<Rightarrow> (txt, acc)
      | Some [] \<Rightarrow> (case TextGetLine txt of (s', t) \<Rightarrow> Sami_collect t s' acc)
      | Some (c # r) \<Rightarrow>
          if c = CHR ''<'' then
            (if strncasecmp (c # r) ''<br'' 3 \<noteq> 0 \<and> strcasestr (c # r) ''Start='' \<noteq> None
             then (TextPreviousLine txt, acc)
             else (case ParseSamiSearch txt (Some (c # r)) ''>'' of
                     (s', t) \<Rightarrow>
                       Sami_collect t s'
                         (Sami_add (if strncasecmp (c # r) ''<br'' 3 = 0 then CHR 0x0A
                                    else CHR 0x00) acc)))
          else if strncmp (c # r) ''&nbsp;'' 6 = 0 then
            Sami_collect txt (Some (drop 6 (c # r))) (Sami_add (CHR '' '') acc)
          else if c = CHR 0x09 then Sami_collect txt (Some r) (Sami_add (CHR '' '') acc)
          else Sami_collect txt (Some r) (Sami_add c acc))"
  by pat_completeness auto
termination
proof (relation "measures [\<lambda>(t, s, a). remaining t, \<lambda>(t, s, a). ptr_size s]", goal_cases)
  case 1
  show ?case by simp
next
  case (2 tx s acc x y z)
  from 2(3) have "remaining z < remaining tx \<or> (z = tx \<and> y = None)"
    by (auto simp: TextGetLine_def remaining_def split: if_splits)
  with 2(1) show ?case by (auto simp: ptr_size_def)
next
  case (3 tx s acc a c r x y)
  have "(x, y) = ParseSamiSearch tx (Some (c # r)) ''>''" by fact
  then have "ParseSamiSearch tx (Some (c # r)) ''>'' = (x, y)" by (rule sym)
  from ParseSamiSearch_measure [OF this] 3 show ?case by auto
qed (auto simp: ptr_size_def)

declare Sami_collect.simps [simp del]

definition ParseSami_unbounded :: "demux_t \<Rightarrow> subtitle_t \<Rightarrow> int \<Rightarrow> status \<times> subtitle_t \<times> demux_t" where
  "ParseSami_unbounded d slot i_idx =
     (case ParseSamiSearch (sys_txt (p_sys d)) None ''Start='' of
        (None, t) \<Rightarrow> (VLC_EGENERIC, slot, set_txt d t)
      | (Some s, t) \<Rightarrow>
          (case strtol0 s of
             (start, s1) \<Rightarrow>
               (case ParseSamiSearch t (Some s1) ''<P'' of
                  (None, t2) \<Rightarrow> (VLC_EGENERIC, slot, set_txt d t2)
                | (Some s2, t2) \<Rightarrow>
                    (case ParseSamiSearch t2 (Some s2) ''>'' of
                       (None, t3) \<Rightarrow> (VLC_EGENERIC, slot, set_txt d t3)
                     | (Some s3, t3) \<Rightarrow>
                         (case Sami_collect t3 (Some s3) [] of
                            (t4, acc) \<Rightarrow>
                              (VLC_SUCCESS,
                               slot\<lparr>i_start := start * 1000, i_stop := 0, psz_text := acc\<rparr>,
                               set_txt d t4))))))"

definition sami_long :: "nat \<Rightarrow> demux_t" where
  "sami_long n = set_txt (session ''sami'' [])
                   (loaded [''<SYNC Start=1><P>'' @ replicate n (CHR ''a'')])"

definition buf_holds :: "nat \<Rightarrow> string \<Rightarrow> string \<Rightarrow> bool" where
  "buf_holds i buf acc =
     (length buf = 8192 \<and> i < 8192 \<and> buf ! i = CHR 0x00 \<and> take i buf = take 8191 acc \<and>
      CHR 0x00 \<notin> set acc)"
section \<open>Properties\<close>

subsection \<open>The cursor stays inside the text\<close>

lemma cursor_step_bound: "cursor_bound txt \<Longrightarrow> cursor_bound (cursor_step txt x)"
  by (cases x) (auto simp: cursor_bound_def TextGetLine_def TextPreviousLine_def)

lemma cursor_run_bound: "cursor_bound txt \<Longrightarrow> cursor_bound (cursor_run txt ops)"
  unfolding cursor_run_def
  by (induction ops arbitrary: "txt") (simp_all add: cursor_step_bound)

text \<open>
  Claim C10.  The cursor position satisfies \<open>0 \<le> i_line \<le> i_line_count\<close> after
  every sequence of \<open>TextGetLine\<close> and \<open>TextPreviousLine\<close> calls that starts
  inside the bound; \<open>TextGetLine\<close> at or past the last line returns \<open>NULL\<close>
  and leaves the cursor where it is, and \<open>TextPreviousLine\<close> at position 0
  changes nothing.
\<close>

theorem line_cursor_bound:
  "(cursor_bound txt \<longrightarrow> cursor_bound (cursor_run txt ops)) \<and>
   (i_line txt \<ge> i_line_count txt \<longrightarrow> TextGetLine txt = (None, txt)) \<and>
   (i_line txt = 0 \<longrightarrow> TextPreviousLine txt = txt)"
  by (simp add: cursor_run_bound TextGetLine_def TextPreviousLine_def)

theorem line_cursor_bound_witness:
  "cursor_bound \<lparr>i_line_count = 2, i_line = 0, line = [''a'', ''b''], line_freed = False\<rparr> \<and>
   cursor_bound (cursor_run \<lparr>i_line_count = 2, i_line = 0, line = [''a'', ''b''], line_freed = False\<rparr>
                   [PushBack, Next, Next, Next, PushBack]) \<and>
   i_line (cursor_run \<lparr>i_line_count = 2, i_line = 0, line = [''a'', ''b''], line_freed = False\<rparr>
                   [PushBack, Next, Next, Next, PushBack]) = 1 \<and>
   TextGetLine \<lparr>i_line_count = 2, i_line = 2, line = [''a'', ''b''], line_freed = False\<rparr> =
     (None, \<lparr>i_line_count = 2, i_line = 2, line = [''a'', ''b''], line_freed = False\<rparr>) \<and>
   TextPreviousLine \<lparr>i_line_count = 2, i_line = 0, line = [''a'', ''b''], line_freed = False\<rparr> =
     \<lparr>i_line_count = 2, i_line = 0, line = [''a'', ''b''], line_freed = False\<rparr>"
  using line_cursor_bound [of "\<lparr>i_line_count = 2, i_line = 0, line = [''a'', ''b''], line_freed = False\<rparr>"
          "[PushBack, Next, Next, Next, PushBack]"]
        line_cursor_bound [of "\<lparr>i_line_count = 2, i_line = 2, line = [''a'', ''b''], line_freed = False\<rparr>" "[]"]
  by (simp add: cursor_bound_def cursor_run_def TextGetLine_def TextPreviousLine_def)

subsection \<open>Reading lines at the cursor\<close>

lemma TextGetLine_peek_Cons:
  assumes "text_ok txt" and "peek txt = l # ls"
  shows "TextGetLine txt = (Some l, advance txt 1)"
    and "text_ok (advance txt 1)" and "peek (advance txt 1) = ls"
proof -
  from assms(2) have lt: "nat (i_line txt) < length (line txt)"
    by (metis drop_eq_Nil list.distinct(1) not_le peek_def)
  with assms(1) have lt': "i_line txt < i_line_count txt"
    by (simp add: text_ok_def)
  from assms(2) have "line txt ! nat (i_line txt) = l"
    by (metis peek_def hd_drop_conv_nth list.sel(1) lt)
  with lt' show "TextGetLine txt = (Some l, advance txt 1)"
    by (simp add: TextGetLine_def advance_def)
  from assms(1) lt' show "text_ok (advance txt 1)"
    by (simp add: text_ok_def advance_def)
  from assms(1) have "nat (i_line txt + 1) = Suc (nat (i_line txt))"
    by (simp add: text_ok_def nat_add_distrib)
  with assms(2) show "peek (advance txt 1) = ls"
    by (simp add: peek_def advance_def) (metis drop_Suc list.sel(3) tl_drop)
qed

lemma advance_advance: "advance (advance txt a) b = advance txt (a + b)"
  by (simp add: advance_def)

lemma sys_txt_set_txt [simp]: "sys_txt (p_sys (set_txt d t)) = t"
  by (simp add: set_txt_def)

lemma var_sub_fps_set_txt [simp]: "var_sub_fps (set_txt d t) = var_sub_fps d"
  by (simp add: set_txt_def)

lemma set_txt_set_txt [simp]: "set_txt (set_txt d t) t' = set_txt d t'"
  by (simp add: set_txt_def)

lemma text_ok_loaded: "text_ok (loaded ls)"
  by (simp add: text_ok_def loaded_def)

lemma peek_loaded: "peek (loaded ls) = ls"
  by (simp add: peek_def loaded_def)

lemma TextGetLine_peek_Nil:
  assumes "text_ok txt" and "peek txt = []"
  shows "TextGetLine txt = (None, txt)"
proof -
  from assms have "i_line_count txt \<le> i_line txt"
    by (simp add: peek_def text_ok_def) arith
  then show ?thesis by (simp add: TextGetLine_def)
qed

lemma subtitle_all_fields [simp]:
  "(r :: subtitle_t)\<lparr>i_start := a, i_stop := b, psz_text := c\<rparr> =
   \<lparr>i_start = a, i_stop = b, psz_text = c\<rparr>"
  by (cases r) simp

subsection \<open>SubRip: the sample cue\<close>

lemma srt_scan0: "sscanf ''00:00:01,000 --> 00:00:02,500'' ''%d:%d:%d,%d --> %d:%d:%d,%d'' =
  (8, [AInt 0, AInt 0, AInt 1, AInt 0, AInt 0, AInt 0, AInt 2, AInt 500])"
  by code_simp

lemma open_subrip_sample:
  "outcome (Open (session ''subrip'' subrip_lines) statics_init)
     = Some (VLC_SUCCESS,
             [\<lparr>i_start = 1000000, i_stop = 2500000,
               psz_text = ''Line one'' @ [CHR 0x0A] @ ''Line two'' @ [CHR 0x0A]\<rparr>],
             2500000, None, statics_init)"
  by code_simp

text \<open>
  Claim C5.  When the lines at the cursor are the timing line
  \<^verbatim>\<open>00:00:01,000 --> 00:00:02,500\<close>, the body lines \<^verbatim>\<open>Line one\<close> and
  \<^verbatim>\<open>Line two\<close> and an empty line, \<open>ParseSubRip\<close> returns one cue with
  \<open>i_start = 1000000\<close>, \<open>i_stop = 2500000\<close> and the text
  \<^verbatim>\<open>Line one\nLine two\n\<close>, and leaves the cursor behind the empty line.
\<close>

theorem subrip_sample_cue:
  assumes ok: "text_ok (sys_txt (p_sys d))"
      and pk: "peek (sys_txt (p_sys d)) =
          ''00:00:01,000 --> 00:00:02,500'' # ''Line one'' # ''Line two'' # [] # rest"
  shows "ParseSubRip d slot i_idx =
     (VLC_SUCCESS,
      \<lparr>i_start = 1000000, i_stop = 2500000,
       psz_text = ''Line one'' @ [CHR 0x0A] @ ''Line two'' @ [CHR 0x0A]\<rparr>,
      set_txt d (advance (sys_txt (p_sys d)) 4))"
proof -
  let ?t = "sys_txt (p_sys d)"
  note s1 = TextGetLine_peek_Cons [OF ok pk]
  note s2 = TextGetLine_peek_Cons [OF s1(2) s1(3), simplified advance_advance, simplified]
  note s3 = TextGetLine_peek_Cons [OF s2(2) s2(3), simplified advance_advance, simplified]
  note s4 = TextGetLine_peek_Cons [OF s3(2) s3(3), simplified advance_advance, simplified]
  have a: "SubRip_timing ?t ''%d:%d:%d,%d --> %d:%d:%d,%d'' =
      (Some (1000000, 2500000), advance ?t 1)"
    by (subst SubRip_timing.simps) (simp add: s1(1) srt_scan0 arg_int_def hms_ms_def)
  have b: "SubRip_text (advance ?t 1) [] False =
      (Some (''Line one'' @ [CHR 0x0A] @ ''Line two'' @ [CHR 0x0A]), advance ?t 4)"
    apply (subst SubRip_text.simps, simp add: s2(1))
    apply (subst SubRip_text.simps, simp add: s3(1))
    apply (subst SubRip_text.simps, simp add: s4(1))
    done
  show ?thesis
    by (simp add: ParseSubRip_def ParseSubRipSubViewer_def a b)
qed

theorem subrip_sample_cue_witness:
  "text_ok (sys_txt (p_sys subrip_demo)) \<and>
   peek (sys_txt (p_sys subrip_demo))
     = ''00:00:01,000 --> 00:00:02,500'' # ''Line one'' # ''Line two'' # [] # [] \<and>
   fst (ParseSubRip subrip_demo slot0 0) = VLC_SUCCESS \<and>
   fst (snd (ParseSubRip subrip_demo slot0 0))
     = \<lparr>i_start = 1000000, i_stop = 2500000,
        psz_text = ''Line one'' @ [CHR 0x0A] @ ''Line two'' @ [CHR 0x0A]\<rparr> \<and>
   outcome (Open (session ''subrip'' subrip_lines) statics_init)
     = Some (VLC_SUCCESS,
             [\<lparr>i_start = 1000000, i_stop = 2500000,
               psz_text = ''Line one'' @ [CHR 0x0A] @ ''Line two'' @ [CHR 0x0A]\<rparr>],
             2500000, None, statics_init)"
proof -
  have a: "text_ok (sys_txt (p_sys subrip_demo))"
    by (simp add: subrip_demo_def text_ok_loaded)
  have b: "peek (sys_txt (p_sys subrip_demo))
     = ''00:00:01,000 --> 00:00:02,500'' # ''Line one'' # ''Line two'' # [] # []"
    by (simp add: subrip_demo_def peek_loaded subrip_lines_def)
  from subrip_sample_cue [OF a b, of slot0 0] a b open_subrip_sample show ?thesis
    by simp
qed

subsection \<open>MicroDVD: the frame-rate declaration\<close>

lemma mdvd_scans:
  "MicroDvd_scan ''{1}{1}23.976'' = Some (1, 1, ''23.976'') \<and>
   MicroDvd_scan ''{100}{200}Hello'' = Some (100, 200, ''Hello'') \<and>
   bar_to_newline ''Hello'' = ''Hello''"
  by code_simp

lemma mdvd_rate:
  "to_float (us_strtod ''23.976'') > 0 \<and>
   to_int64 (to_float (1000000 / to_float (us_strtod ''23.976''))) = 41708 \<and>
   rat_of_int (100 * 41708) \<noteq> 100 * (1000000 / (23976 / 1000)) \<and>
   fps_to_usec (to_float 25) = 40000"
  by code_simp

lemma microdvd_two_lines:
  assumes ok: "text_ok (sys_txt (p_sys d))"
      and pk: "peek (sys_txt (p_sys d)) = ''{1}{1}23.976'' # ''{100}{200}Hello'' # rest"
  shows "ParseMicroDvd d slot i_idx =
     (if var_sub_fps d \<le> 0
      then (VLC_SUCCESS, slot\<lparr>i_start := 4170800, i_stop := 8341600, psz_text := ''Hello''\<rparr>,
            with_usec (set_txt d (advance (sys_txt (p_sys d)) 2)) 41708)
      else (VLC_SUCCESS,
            slot\<lparr>i_start := 100 * i_microsecperframe (p_sys d),
                 i_stop := 200 * i_microsecperframe (p_sys d), psz_text := ''Hello''\<rparr>,
            set_txt d (advance (sys_txt (p_sys d)) 2)))"
proof -
  let ?t = "sys_txt (p_sys d)"
  note s1 = TextGetLine_peek_Cons [OF ok pk]
  note s2 = TextGetLine_peek_Cons [OF s1(2) s1(3), simplified advance_advance, simplified]
  have step2: "ParseMicroDvd (with_usec (set_txt d (advance ?t 1)) u) slot i_idx =
      (VLC_SUCCESS, slot\<lparr>i_start := 100 * u, i_stop := 200 * u, psz_text := ''Hello''\<rparr>,
       with_usec (set_txt d (advance ?t 2)) u)" for u
  proof -
    have g: "sys_txt (p_sys (with_usec (set_txt d (advance ?t 1)) u)) = advance ?t 1"
      by (simp add: with_usec_def set_txt_def)
    show ?thesis
      by (subst ParseMicroDvd.simps)
         (simp add: g s2(1) mdvd_scans, simp add: with_usec_def set_txt_def)
  qed
  have same: "with_usec (set_txt d x) (i_microsecperframe (p_sys d)) = set_txt d x" for x
    by (simp add: with_usec_def set_txt_def)
  show ?thesis
  proof (cases "var_sub_fps d \<le> 0")
    case True
    have f: "MicroDvd_fps (set_txt d (advance ?t 1)) ''23.976'' =
        with_usec (set_txt d (advance ?t 1)) 41708"
      using True by (simp add: MicroDvd_fps_def Let_def mdvd_rate with_usec_def set_txt_def)
    show ?thesis
      by (subst ParseMicroDvd.simps) (simp add: s1(1) mdvd_scans f step2 True)
  next
    case False
    have f: "MicroDvd_fps (set_txt d (advance ?t 1)) ''23.976'' = set_txt d (advance ?t 1)"
      using False by (simp add: MicroDvd_fps_def Let_def set_txt_def)
    note step = step2 [of "i_microsecperframe (p_sys d)", simplified same]
    show ?thesis
      by (subst ParseMicroDvd.simps) (simp add: s1(1) mdvd_scans f step False)
  qed
qed

lemma ParseMicroDvd_at_end:
  assumes "text_ok (sys_txt (p_sys d))" and "peek (sys_txt (p_sys d)) = []"
  shows "ParseMicroDvd d slot i_idx = (VLC_EGENERIC, slot, d)"
  by (subst ParseMicroDvd.simps) (simp add: TextGetLine_peek_Nil [OF assms])

lemma microdvd_two_lines_loop:
  assumes ok: "text_ok (sys_txt (p_sys d))"
      and pk: "peek (sys_txt (p_sys d)) = [''{1}{1}23.976'', ''{100}{200}Hello'']"
  shows "parse_loop (no_statics ParseMicroDvd) d st =
     Some (VLC_EGENERIC,
           (if var_sub_fps d \<le> 0
            then add_cue (with_usec (set_txt d (advance (sys_txt (p_sys d)) 2)) 41708)
                   \<lparr>i_start = 4170800, i_stop = 8341600, psz_text = ''Hello''\<rparr>
            else add_cue (set_txt d (advance (sys_txt (p_sys d)) 2))
                   \<lparr>i_start = 100 * i_microsecperframe (p_sys d),
                    i_stop = 200 * i_microsecperframe (p_sys d), psz_text = ''Hello''\<rparr>),
           st)"
proof -
  let ?t = "sys_txt (p_sys d)"
  note s1 = TextGetLine_peek_Cons [OF ok pk]
  note s2 = TextGetLine_peek_Cons [OF s1(2) s1(3), simplified advance_advance, simplified]
  have e: "ParseMicroDvd (add_cue (with_usec (set_txt d (advance ?t 2)) u) c) slot i_idx =
      (VLC_EGENERIC, slot, add_cue (with_usec (set_txt d (advance ?t 2)) u) c)" for u c slot i_idx
    by (rule ParseMicroDvd_at_end) (simp_all add: add_cue_def with_usec_def set_txt_def s2)
  have same: "with_usec (set_txt d x) (i_microsecperframe (p_sys d)) = set_txt d x" for x
    by (simp add: with_usec_def set_txt_def)
  note e' = e [of "i_microsecperframe (p_sys d)", simplified same]
  show ?thesis
  proof (cases "var_sub_fps d \<le> 0")
    case True
    show ?thesis
      apply (subst parse_loop.simps)
      apply (simp add: no_statics_def microdvd_two_lines [OF ok pk] True)
      apply (subst parse_loop.simps)
      apply (simp add: no_statics_def add_cue_def [symmetric] e True)
      done
  next
    case False
    show ?thesis
      apply (subst parse_loop.simps)
      apply (simp add: no_statics_def microdvd_two_lines [OF ok pk] False)
      apply (subst parse_loop.simps)
      apply (simp add: no_statics_def add_cue_def [symmetric] e' False)
      done
  qed
qed

lemma microdvd_demo_facts:
  "text_ok (sys_txt (p_sys microdvd_demo))"
  "peek (sys_txt (p_sys microdvd_demo)) = [''{1}{1}23.976'', ''{100}{200}Hello'']"
  "var_sub_fps microdvd_demo \<le> 0"
  "text_ok (sys_txt (p_sys microdvd_demo_override))"
  "peek (sys_txt (p_sys microdvd_demo_override)) = [''{1}{1}23.976'', ''{100}{200}Hello'']"
  "\<not> var_sub_fps microdvd_demo_override \<le> 0"
  "i_microsecperframe (p_sys microdvd_demo_override) = 40000"
  "subtitle (p_sys microdvd_demo) = []"
  by (simp_all add: microdvd_demo_def microdvd_demo_override_def with_usec_def set_txt_def
        text_ok_loaded peek_loaded microdvd_lines_def session_def blank_sys_def)

text \<open>
  Claim C4, as amended.  When the lines left in the text are \<^verbatim>\<open>{1}{1}23.976\<close>
  and \<^verbatim>\<open>{100}{200}Hello\<close>, \<open>ParseMicroDvd\<close> consumes the first line
  without a cue and returns the cue of the second, with the text \<^verbatim>\<open>Hello\<close>,
  whether or not \<^verbatim>\<open>sub-fps\<close> is set; the parse loop of \<open>Open\<close> collects this one
  cue and stops.  Without an override (\<^verbatim>\<open>sub-fps\<close> not above 0) the frame
  duration becomes 41708, that is 1000000 / 23.976 cut to whole microseconds, so
  \<open>i_start = 100 * 41708 = 4170800\<close> and \<open>i_stop = 8341600\<close>.  With an override
  the declared rate is ignored and the times are 100 and 200 frames of the
  duration in force.
\<close>

theorem microdvd_declared_rate:
  assumes "text_ok (sys_txt (p_sys d))"
      and "peek (sys_txt (p_sys d)) = [''{1}{1}23.976'', ''{100}{200}Hello'']"
  shows "ParseMicroDvd d slot i_idx =
     (if var_sub_fps d \<le> 0
      then (VLC_SUCCESS, \<lparr>i_start = 4170800, i_stop = 8341600, psz_text = ''Hello''\<rparr>,
            with_usec (set_txt d (advance (sys_txt (p_sys d)) 2)) 41708)
      else (VLC_SUCCESS,
            \<lparr>i_start = 100 * i_microsecperframe (p_sys d),
             i_stop = 200 * i_microsecperframe (p_sys d), psz_text = ''Hello''\<rparr>,
            set_txt d (advance (sys_txt (p_sys d)) 2))) \<and>
     parse_loop (no_statics ParseMicroDvd) d st =
     Some (VLC_EGENERIC,
           (if var_sub_fps d \<le> 0
            then add_cue (with_usec (set_txt d (advance (sys_txt (p_sys d)) 2)) 41708)
                   \<lparr>i_start = 4170800, i_stop = 8341600, psz_text = ''Hello''\<rparr>
            else add_cue (set_txt d (advance (sys_txt (p_sys d)) 2))
                   \<lparr>i_start = 100 * i_microsecperframe (p_sys d),
                    i_stop = 200 * i_microsecperframe (p_sys d), psz_text = ''Hello''\<rparr>),
           st)"
  using microdvd_two_lines [OF assms, of slot i_idx] microdvd_two_lines_loop [OF assms, of st]
  by simp

theorem microdvd_declared_rate_witness:
  "text_ok (sys_txt (p_sys microdvd_demo)) \<and>
   peek (sys_txt (p_sys microdvd_demo)) = [''{1}{1}23.976'', ''{100}{200}Hello''] \<and>
   fst (snd (ParseMicroDvd microdvd_demo slot0 0))
     = \<lparr>i_start = 4170800, i_stop = 8341600, psz_text = ''Hello''\<rparr> \<and>
   map_option (\<lambda>(rc, d, st). (rc, subtitle (p_sys d)))
       (parse_loop (no_statics ParseMicroDvd) microdvd_demo statics_init)
     = Some (VLC_EGENERIC, [\<lparr>i_start = 4170800, i_stop = 8341600, psz_text = ''Hello''\<rparr>]) \<and>
   text_ok (sys_txt (p_sys microdvd_demo_override)) \<and>
   peek (sys_txt (p_sys microdvd_demo_override)) = [''{1}{1}23.976'', ''{100}{200}Hello''] \<and>
   fst (snd (ParseMicroDvd microdvd_demo_override slot0 0))
     = \<lparr>i_start = 4000000, i_stop = 8000000, psz_text = ''Hello''\<rparr>"
  using microdvd_declared_rate [OF microdvd_demo_facts(1,2), of slot0 0 statics_init]
        microdvd_declared_rate [OF microdvd_demo_facts(4,5), of slot0 0 statics_init]
  by (simp add: microdvd_demo_facts add_cue_def with_usec_def set_txt_def)

text \<open>
  The claim as it is written fails twice.  With the override \<^verbatim>\<open>sub-fps\<close> set
  to 25 (frame duration 40000) the first cue parsed from the same two lines is
  still the one of the second line: the declaration line is consumed without a
  cue although an override is set.  And without an override \<open>i_start\<close> is
  4170800, which is not 100 * (1000000 / 23.976): the frame duration is cut to whole
  microseconds before it is multiplied.
\<close>

theorem microdvd_declared_rate_counterexample:
  "var_sub_fps microdvd_demo_override = 25 \<and>
   fps_to_usec (to_float 25) = i_microsecperframe (p_sys microdvd_demo_override) \<and>
   fst (snd (ParseMicroDvd microdvd_demo_override slot0 0))
     = \<lparr>i_start = 4000000, i_stop = 8000000, psz_text = ''Hello''\<rparr> \<and>
   fst (snd (ParseMicroDvd microdvd_demo slot0 0))
     = \<lparr>i_start = 4170800, i_stop = 8341600, psz_text = ''Hello''\<rparr> \<and>
   rat_of_int 4170800 \<noteq> 100 * (1000000 / (23976 / 1000))"
  using microdvd_two_lines [OF microdvd_demo_facts(1,2), of slot0 0]
        microdvd_two_lines [OF microdvd_demo_facts(4,5), of slot0 0] mdvd_rate
  by (simp add: microdvd_demo_facts)
     (simp add: microdvd_demo_override_def with_usec_def)

subsection \<open>SSA and ASS: the repaired prefix\<close>

text \<open>
  Claim C6 at an input where the code leaves it.  In an ASS session the cue with
  index 1000 and the layer field 1234567890 needs the prefix
  \<^verbatim>\<open>1000,1234567890,\<close> of 16 characters; \<^verbatim>\<open>snprintf\<close> stores 15 of them in
  \<^verbatim>\<open>temp[16]\<close>, and the comma that ends the layer field is lost.
\<close>

theorem ssa_prefix_cut_at_15:
  "fst (snd (ParseSSA (with_type (set_txt (session ''ass'' []) (loaded ass_long_layer)) SUB_TYPE_ASS)
               slot0 1000))
     = \<lparr>i_start = 1000000, i_stop = 2000000, psz_text = ''1000,1234567890Default,,0,0,0,,Hi''\<rparr>"
  by code_simp

subsection \<open>Open on a stream without lines\<close>

text \<open>
  Claim C2 at an input where the code leaves it.  \<open>TextLoad\<close> on a stream
  without lines returns \<open>VLC_EGENERIC\<close> and frees the array.  \<open>Open\<close> with the
  format \<^verbatim>\<open>subrip\<close> selected does not look at that return value: it runs the
  parser on the empty text and calls \<open>TextUnload\<close>, which frees the array a second
  time.
\<close>

theorem open_ignores_empty_load:
  "fst (TextLoad (sys_txt blank_sys) \<lparr>s_lines = [], s_pos = 0, s_seekable = True\<rparr>) = VLC_EGENERIC \<and>
   outcome (Open (session ''subrip'' []) statics_init) = Some (UNDEFINED, [], 0, None, statics_init)"
  by code_simp

subsection \<open>The parsers leave the table of subtitles alone\<close>

lemma same_cues_refl [simp]: "same_cues d d"
  by (simp add: same_cues_def)

lemma same_cues_set_txt [simp]:
  "same_cues (set_txt d t) d' = same_cues d d'" "same_cues d (set_txt d' t) = same_cues d d'"
  by (simp_all add: same_cues_def set_txt_def)

lemma same_cues_MicroDvd_fps [simp]: "same_cues (MicroDvd_fps d x) d' = same_cues d d'"
  by (simp add: same_cues_def MicroDvd_fps_def Let_def)

lemma same_cues_MPSub_fps [simp]: "same_cues d (MPSub_fps d' x) = same_cues d d'"
  by (simp add: same_cues_def MPSub_fps_def Let_def)

lemma same_cues_header [simp]:
  "same_cues (d\<lparr>p_sys := (p_sys d)\<lparr>psz_header := h\<rparr>\<rparr>) d' = same_cues d d'"
  by (simp add: same_cues_def)

lemma ParseMicroDvd_same_cues:
  "ParseMicroDvd d slot i_idx = (rc, slot', d') \<Longrightarrow> same_cues d d'"
proof (induction d slot i_idx rule: ParseMicroDvd.induct)
  case (1 d slot i_idx)
  obtain o1 t where g: "TextGetLine (sys_txt (p_sys d)) = (o1, t)"
    by (cases "TextGetLine (sys_txt (p_sys d))")
  show ?case
  proof (cases o1)
    case None
    with g "1.prems" show ?thesis by (subst (asm) ParseMicroDvd.simps) auto
  next
    case (Some s)
    show ?thesis
    proof (cases "MicroDvd_scan s")
      case None
      with g Some "1.prems" have "ParseMicroDvd (set_txt d t) slot i_idx = (rc, slot', d')"
        by (subst (asm) ParseMicroDvd.simps) simp
      from "1.IH"(1) [OF g [symmetric] Some None this] show ?thesis by simp
    next
      case m: (Some trip)
      obtain a b tx where trip: "trip = (a, b, tx)" by (cases trip)
      show ?thesis
      proof (cases "a \<noteq> 1 \<or> b \<noteq> 1")
        case True
        with g Some m trip "1.prems" show ?thesis
          by (subst (asm) ParseMicroDvd.simps) auto
      next
        case False
        with g Some m trip "1.prems"
        have "ParseMicroDvd (MicroDvd_fps (set_txt d t) tx) slot i_idx = (rc, slot', d')"
          by (subst (asm) ParseMicroDvd.simps) simp
        from "1.IH"(2) [OF g [symmetric] Some m trip [symmetric] refl False this]
        show ?thesis by simp
      qed
    qed
  qed
qed

lemma ParseSSA_same_cues:
  "ParseSSA d slot i_idx = (rc, slot', d') \<Longrightarrow> same_cues d d'"
proof (induction d slot i_idx rule: ParseSSA.induct)
  case (1 d slot i_idx)
  obtain o1 t where g: "TextGetLine (sys_txt (p_sys d)) = (o1, t)"
    by (cases "TextGetLine (sys_txt (p_sys d))")
  show ?case
  proof (cases o1)
    case None
    with g "1.prems" show ?thesis by (subst (asm) ParseSSA.simps) auto
  next
    case (Some s)
    obtain n a where sc: "sscanf s (''Dialogue: %15[^,],%d:%d:%d.%d,%d:%d:%d.%d,%[^'' @ crlf @ '']'') = (n, a)"
      by (cases "sscanf s (''Dialogue: %15[^,],%d:%d:%d.%d,%d:%d:%d.%d,%[^'' @ crlf @ '']'')")
    show ?thesis
    proof (cases "n = 10")
      case True
      with g Some sc "1.prems" show ?thesis
        by (subst (asm) ParseSSA.simps) auto
    next
      case False
      with g Some sc "1.prems"
      have "ParseSSA ((set_txt d t)\<lparr>p_sys := (p_sys (set_txt d t))
                         \<lparr>psz_header :=
                            Some ((case psz_header (p_sys d) of None \<Rightarrow> [] | Some h \<Rightarrow> h)
                                  @ s @ [CHR 0x0A])\<rparr>\<rparr>) slot i_idx = (rc, slot', d')"
        by (subst (asm) ParseSSA.simps) simp
      from "1.IH" [OF g [symmetric] Some sc [symmetric] False this] show ?thesis by simp
    qed
  qed
qed

lemma ParseVplayer_same_cues:
  "ParseVplayer d slot i_idx = (rc, slot', d') \<Longrightarrow> same_cues d d'"
proof (induction d slot i_idx rule: ParseVplayer.induct)
  case (1 d slot i_idx)
  obtain o1 t where g: "TextGetLine (sys_txt (p_sys d)) = (o1, t)"
    by (cases "TextGetLine (sys_txt (p_sys d))")
  show ?case
  proof (cases o1)
    case None
    with g "1.prems" show ?thesis by (subst (asm) ParseVplayer.simps) auto
  next
    case (Some s)
    obtain n a where sc: "sscanf s (''%d:%d:%d%*c%[^'' @ crlf @ '']'') = (n, a)"
      by (cases "sscanf s (''%d:%d:%d%*c%[^'' @ crlf @ '']'')")
    show ?thesis
    proof (cases "n = 4")
      case True
      with g Some sc "1.prems" show ?thesis
        by (subst (asm) ParseVplayer.simps) auto
    next
      case False
      with g Some sc "1.prems"
      have "ParseVplayer (set_txt d t) slot i_idx = (rc, slot', d')"
        by (subst (asm) ParseVplayer.simps) simp
      from "1.IH" [OF g [symmetric] Some sc [symmetric] False this] show ?thesis by simp
    qed
  qed
qed

lemma ParsePJS_same_cues:
  "ParsePJS d slot i_idx = (rc, slot', d') \<Longrightarrow> same_cues d d'"
proof (induction d slot i_idx rule: ParsePJS.induct)
  case (1 d slot i_idx)
  obtain o1 t where g: "TextGetLine (sys_txt (p_sys d)) = (o1, t)"
    by (cases "TextGetLine (sys_txt (p_sys d))")
  show ?case
  proof (cases o1)
    case None
    with g "1.prems" show ?thesis by (subst (asm) ParsePJS.simps) auto
  next
    case (Some s)
    obtain n a where sc: "sscanf s (''%d,%d,\"%[^'' @ lfcr @ '']'') = (n, a)"
      by (cases "sscanf s (''%d,%d,\"%[^'' @ lfcr @ '']'')")
    show ?thesis
    proof (cases "n = 3")
      case True
      with g Some sc "1.prems" show ?thesis
        by (subst (asm) ParsePJS.simps) auto
    next
      case False
      with g Some sc "1.prems"
      have "ParsePJS (set_txt d t) slot i_idx = (rc, slot', d')"
        by (subst (asm) ParsePJS.simps) simp
      from "1.IH" [OF g [symmetric] Some sc [symmetric] False this] show ?thesis by simp
    qed
  qed
qed

lemma ParseMPL2_same_cues:
  "ParseMPL2 d slot i_idx = (rc, slot', d') \<Longrightarrow> same_cues d d'"
proof (induction d slot i_idx rule: ParseMPL2.induct)
  case (1 d slot i_idx)
  obtain o1 t where g: "TextGetLine (sys_txt (p_sys d)) = (o1, t)"
    by (cases "TextGetLine (sys_txt (p_sys d))")
  show ?case
  proof (cases o1)
    case None
    with g "1.prems" show ?thesis by (subst (asm) ParseMPL2.simps) auto
  next
    case (Some s)
    show ?thesis
    proof (cases "MPL2_scan s")
      case None
      with g Some "1.prems" have "ParseMPL2 (set_txt d t) slot i_idx = (rc, slot', d')"
        by (subst (asm) ParseMPL2.simps) simp
      from "1.IH" [OF g [symmetric] Some None this] show ?thesis by simp
    next
      case m: (Some trip)
      with g Some "1.prems" show ?thesis
        by (subst (asm) ParseMPL2.simps) (auto split: prod.splits)
    qed
  qed
qed

lemma ParseSubRipSubViewer_same_cues:
  "ParseSubRipSubViewer d slot f b = (rc, slot', d') \<Longrightarrow> same_cues d d'"
  by (auto simp: ParseSubRipSubViewer_def split: prod.splits option.splits)

lemma ParseSubRip_same_cues:
  "ParseSubRip d slot i_idx = (rc, slot', d') \<Longrightarrow> same_cues d d'"
  unfolding ParseSubRip_def by (rule ParseSubRipSubViewer_same_cues)

lemma ParseSubViewer_same_cues:
  "ParseSubViewer d slot i_idx = (rc, slot', d') \<Longrightarrow> same_cues d d'"
  unfolding ParseSubViewer_def by (rule ParseSubRipSubViewer_same_cues)

lemma ParseDVDSubtitle_same_cues:
  "ParseDVDSubtitle d slot i_idx = (rc, slot', d') \<Longrightarrow> same_cues d d'"
  by (auto simp: ParseDVDSubtitle_def split: prod.splits option.splits)

lemma ParseAQT_same_cues:
  "ParseAQT d slot i_idx = (rc, slot', d') \<Longrightarrow> same_cues d d'"
  by (auto simp: ParseAQT_def split: prod.splits option.splits)

lemma ParseSami_same_cues:
  "ParseSami d slot i_idx = (rc, slot', d') \<Longrightarrow> same_cues d d'"
  by (auto simp: ParseSami_def split: prod.splits option.splits if_splits)

lemma MPSub_head_same_cues:
  "MPSub_head st d slot = (rc, slot', d', st') \<Longrightarrow> same_cues d d'"
proof (induction st d slot rule: MPSub_head.induct)
  case (1 st d slot)
  obtain o1 t where g: "TextGetLine (sys_txt (p_sys d)) = (o1, t)"
    by (cases "TextGetLine (sys_txt (p_sys d))")
  show ?case
  proof (cases o1)
    case None
    with g "1.prems" show ?thesis by (subst (asm) MPSub_head.simps) auto
  next
    case (Some s)
    obtain n1 a1 where s1: "sscanf s ''FORMAT=TIM%c'' = (n1, a1)"
      by (cases "sscanf s ''FORMAT=TIM%c''")
    obtain n2 a2 where s2: "sscanf s (''FORMAT=%[^'' @ crlf @ '']'') = (n2, a2)"
      by (cases "sscanf s (''FORMAT=%[^'' @ crlf @ '']'')")
    obtain n3 a3 where s3: "sscanf s ''%f %f'' = (n3, a3)"
      by (cases "sscanf s ''%f %f''")
    show ?thesis
    proof (cases "\<not> (n1 = 1 \<and> arg_chr a1 0 (CHR 0x00) = CHR ''E'') \<and> \<not> n2 \<noteq> 0 \<and> n3 \<noteq> 2")
      case True
      with g Some s1 s2 s3 "1.prems" have "MPSub_head st (set_txt d t) slot = (rc, slot', d', st')"
        by (subst (asm) MPSub_head.simps) auto
      from "1.IH" [OF g [symmetric] Some s1 [symmetric] _ s2 [symmetric] _ s3 [symmetric] _ this] True
      show ?thesis by simp
    next
      case False
      with g Some s1 s2 s3 "1.prems" show ?thesis
        by (subst (asm) MPSub_head.simps) (auto split: if_splits)
    qed
  qed
qed

lemma ParseMPSub_same_cues:
  "ParseMPSub st d slot i_idx = (rc, slot', d', st') \<Longrightarrow> same_cues d d'"
  by (auto simp: ParseMPSub_def split: prod.splits option.splits if_splits
           dest: MPSub_head_same_cues)

lemma ParseJSS_loop_same_cues:
  "ParseJSS_loop st d slot = (rc, slot', d', st') \<Longrightarrow> same_cues d d'"
proof (induction st d slot rule: ParseJSS_loop.induct)
  case (1 st d slot)
  obtain o1 t where g: "TextGetLine (sys_txt (p_sys d)) = (o1, t)"
    by (cases "TextGetLine (sys_txt (p_sys d))")
  show ?case
  proof (cases o1)
    case None
    with g "1.prems" show ?thesis by (subst (asm) ParseJSS_loop.simps) auto
  next
    case (Some s)
    show ?thesis
    proof (cases "JSS_timing st s")
      case tm: (Some q)
      with g Some "1.prems" show ?thesis
        by (subst (asm) ParseJSS_loop.simps) (auto split: prod.splits if_splits)
    next
      case None
      show ?thesis
      proof (cases "char_at s 0 = CHR ''#''")
        case True
        obtain rcd std where dr: "JSS_directive st s = (rcd, std)"
          by (cases "JSS_directive st s")
        show ?thesis
        proof (cases "rcd \<noteq> VLC_SUCCESS")
          case True
          with g Some None \<open>char_at s 0 = CHR ''#''\<close> dr "1.prems" show ?thesis
            by (subst (asm) ParseJSS_loop.simps) auto
        next
          case False
          with g Some None \<open>char_at s 0 = CHR ''#''\<close> dr "1.prems"
          have "ParseJSS_loop std (set_txt d t) slot = (rc, slot', d', st')"
            by (subst (asm) ParseJSS_loop.simps) auto
          from "1.IH"(1) [OF g [symmetric] Some None True dr [symmetric] False this]
          show ?thesis by simp
        qed
      next
        case False
        with g Some None "1.prems"
        have "ParseJSS_loop st (set_txt d t) slot = (rc, slot', d', st')"
          by (subst (asm) ParseJSS_loop.simps) auto
        from "1.IH"(2) [OF g [symmetric] Some None False this] show ?thesis by simp
      qed
    qed
  qed
qed

lemma keeps_cues_no_statics:
  assumes "\<And>d slot i_idx rc slot' d'. f d slot i_idx = (rc, slot', d') \<Longrightarrow> same_cues d d'"
  shows "keeps_cues (no_statics f)"
  unfolding keeps_cues_def no_statics_def
  by (auto split: prod.splits dest: assms)

lemma keeps_cues_table:
  "pf_read_of sub_read_subtitle_function ty = Some pf \<Longrightarrow> keeps_cues pf"
proof -
  have a: "keeps_cues (no_statics ParseMicroDvd)" "keeps_cues (no_statics ParseSubRip)"
    "keeps_cues (no_statics ParseSubViewer)" "keeps_cues (no_statics ParseSSA)"
    "keeps_cues (no_statics ParseVplayer)" "keeps_cues (no_statics ParseSami)"
    "keeps_cues (no_statics ParseDVDSubtitle)" "keeps_cues (no_statics ParseMPL2)"
    "keeps_cues (no_statics ParseAQT)" "keeps_cues (no_statics ParsePJS)"
    by (rule keeps_cues_no_statics, erule ParseMicroDvd_same_cues,
        rule keeps_cues_no_statics, erule ParseSubRip_same_cues,
        rule keeps_cues_no_statics, erule ParseSubViewer_same_cues,
        rule keeps_cues_no_statics, erule ParseSSA_same_cues,
        rule keeps_cues_no_statics, erule ParseVplayer_same_cues,
        rule keeps_cues_no_statics, erule ParseSami_same_cues,
        rule keeps_cues_no_statics, erule ParseDVDSubtitle_same_cues,
        rule keeps_cues_no_statics, erule ParseMPL2_same_cues,
        rule keeps_cues_no_statics, erule ParseAQT_same_cues,
        rule keeps_cues_no_statics, erule ParsePJS_same_cues)
  have b: "keeps_cues ParseMPSub" "keeps_cues ParseJSS"
    unfolding keeps_cues_def ParseJSS_def
    by (metis ParseMPSub_same_cues prod.collapse, metis ParseJSS_loop_same_cues prod.collapse)
  assume "pf_read_of sub_read_subtitle_function ty = Some pf"
  with a b show ?thesis
    by (auto simp: sub_read_subtitle_function_def split: if_splits)
qed

lemma parse_loop_cues_ok_aux:
  assumes "parse_loop pf0 d0 st0 = Some r0"
  shows "keeps_cues pf0 \<longrightarrow> cues_ok d0 \<longrightarrow>
         cues_ok (fst (snd r0)) \<and> fresh_slot (fst (snd r0)) = fresh_slot d0"
proof (rule parse_loop.raw_induct
    [where P = "\<lambda>pf d st r. keeps_cues pf \<longrightarrow> cues_ok d \<longrightarrow>
                  cues_ok (fst (snd r)) \<and> fresh_slot (fst (snd r)) = fresh_slot d", OF _ assms])
  fix parse_loop' :: "parser \<Rightarrow> demux_t \<Rightarrow> statics \<Rightarrow> (status \<times> demux_t \<times> statics) option"
    and pf d st r
  assume IH: "\<And>pf d st r. parse_loop' pf d st = Some r \<Longrightarrow>
      keeps_cues pf \<longrightarrow> cues_ok d \<longrightarrow>
      cues_ok (fst (snd r)) \<and> fresh_slot (fst (snd r)) = fresh_slot d"
    and body: "(case pf st d (fresh_slot d (i_subtitles (p_sys d))) (i_subtitles (p_sys d)) of
        (rc, slot, d', st') \<Rightarrow>
          if rc \<noteq> VLC_SUCCESS then Some (rc, d', st')
          else parse_loop' pf
                 (d'\<lparr>p_sys := (p_sys d')\<lparr>subtitle := subtitle (p_sys d') @ [slot],
                                         i_subtitles := i_subtitles (p_sys d') + 1\<rparr>\<rparr>)
                 st') = Some r"
  show "keeps_cues pf \<longrightarrow> cues_ok d \<longrightarrow>
        cues_ok (fst (snd r)) \<and> fresh_slot (fst (snd r)) = fresh_slot d"
  proof (intro impI)
    assume kc: "keeps_cues pf" and ok: "cues_ok d"
    obtain rc slot d1 st1 where
      p: "pf st d (fresh_slot d (i_subtitles (p_sys d))) (i_subtitles (p_sys d)) = (rc, slot, d1, st1)"
      by (cases "pf st d (fresh_slot d (i_subtitles (p_sys d))) (i_subtitles (p_sys d))") auto
    from kc have "same_cues d (fst (snd (snd
        (pf st d (fresh_slot d (i_subtitles (p_sys d))) (i_subtitles (p_sys d))))))"
      unfolding keeps_cues_def by blast
    with p have sc: "same_cues d d1" by simp
    show "cues_ok (fst (snd r)) \<and> fresh_slot (fst (snd r)) = fresh_slot d"
    proof (cases "rc \<noteq> VLC_SUCCESS")
      case True
      with body p have "r = (rc, d1, st1)" by simp
      with sc ok show ?thesis by (simp add: same_cues_def cues_ok_def)
    next
      case False
      let ?d2 = "d1\<lparr>p_sys := (p_sys d1)\<lparr>subtitle := subtitle (p_sys d1) @ [slot],
                                       i_subtitles := i_subtitles (p_sys d1) + 1\<rparr>\<rparr>"
      from False body p have "parse_loop' pf ?d2 st1 = Some r" by simp
      moreover from sc ok have "cues_ok ?d2" by (simp add: same_cues_def cues_ok_def)
      ultimately have "cues_ok (fst (snd r)) \<and> fresh_slot (fst (snd r)) = fresh_slot ?d2"
        using IH kc by blast
      with sc show ?thesis by (simp add: same_cues_def)
    qed
  qed
qed

lemma parse_loop_cues_ok:
  assumes "parse_loop pf d st = Some r" and "keeps_cues pf" and "cues_ok d"
  shows "cues_ok (fst (snd r)) \<and> fresh_slot (fst (snd r)) = fresh_slot d"
  using parse_loop_cues_ok_aux [OF assms(1)] assms(2,3) by blast

subsection \<open>The duration\<close>

lemma Open_length_duration:
  assumes "i_subtitles sys = int (length (subtitle sys))"
  shows "i_length (Open_length sys) = duration_of (subtitle sys)"
    and "subtitle (Open_length sys) = subtitle sys"
    and "i_subtitles (Open_length sys) = i_subtitles sys"
proof -
  have n: "nat (int (length (subtitle sys)) - 1) = length (subtitle sys) - 1"
    by simp
  from assms n show "i_length (Open_length sys) = duration_of (subtitle sys)"
    by (auto simp: Open_length_def duration_of_def last_conv_nth)
  show "subtitle (Open_length sys) = subtitle sys"
    and "i_subtitles (Open_length sys) = i_subtitles sys"
    by (simp_all add: Open_length_def)
qed

text \<open>
  Claim C7.  When \<open>Open\<close> returns \<open>VLC_SUCCESS\<close>, the length it has computed is
  the stop time of the last cue, or the start time of the last cue plus one when
  that stop is not positive, and 0 when there is no cue; \<open>DEMUX_GET_LENGTH\<close>
  answers with this value.
\<close>

theorem duration_of_finished_session:
  assumes "Open d st = Some (VLC_SUCCESS, d', st')"
  shows "i_length (p_sys d') = duration_of (subtitle (p_sys d')) \<and>
         Control d' DEMUX_GET_LENGTH = (VLC_SUCCESS, I64 (duration_of (subtitle (p_sys d'))), d')"
proof -
  from assms have bf: "b_force d" by (auto simp: Open_def split: if_splits)
  obtain ty strm where ot: "Open_type d = (ty, strm)" by (cases "Open_type d")
  from assms bf ot have ty: "ty \<noteq> SUB_TYPE_UNKNOWN" by (auto simp: Open_def split: if_splits)
  from assms bf ot ty obtain pf where pf: "pf_read_of sub_read_subtitle_function ty = Some pf"
    by (auto simp: Open_def split: option.splits)
  obtain rcl t strm' where tl: "TextLoad (sys_txt (Open_init d)) strm = (rcl, t, strm')"
    by (cases "TextLoad (sys_txt (Open_init d)) strm") auto
  let ?d1 = "d\<lparr>p_stream := strm', p_sys := (Open_init d)\<lparr>i_type := ty, sys_txt := t\<rparr>\<rparr>"
  from assms bf ot ty pf tl obtain r where
    r: "parse_loop pf ?d1 st = Some r" and f: "Open_finish r = (VLC_SUCCESS, d', st')"
    by (auto simp: Open_def)
  have "cues_ok ?d1" by (simp add: cues_ok_def Open_init_def Let_def)
  from parse_loop_cues_ok [OF r keeps_cues_table [OF pf] this]
  have ok: "cues_ok (fst (snd r))" by simp
  obtain rc d2 st2 where r3: "r = (rc, d2, st2)" by (cases r) auto
  obtain rcu tu where tu: "TextUnload (sys_txt (p_sys d2)) = (rcu, tu)"
    by (cases "TextUnload (sys_txt (p_sys d2))")
  from f r3 tu have d': "d' = d2\<lparr>p_sys := Open_length ((p_sys d2)\<lparr>sys_txt := tu\<rparr>)\<rparr>"
    by (auto simp: Open_finish_def split: if_splits)
  from ok r3 have "i_subtitles ((p_sys d2)\<lparr>sys_txt := tu\<rparr>) =
      int (length (subtitle ((p_sys d2)\<lparr>sys_txt := tu\<rparr>)))"
    by (simp add: cues_ok_def)
  from Open_length_duration [OF this] d' show ?thesis by simp
qed

theorem duration_of_finished_session_witness:
  "\<exists>d' st'. Open (session ''subrip'' subrip_lines) statics_init = Some (VLC_SUCCESS, d', st') \<and>
     subtitle (p_sys d') = [\<lparr>i_start = 1000000, i_stop = 2500000,
               psz_text = ''Line one'' @ [CHR 0x0A] @ ''Line two'' @ [CHR 0x0A]\<rparr>] \<and>
     i_length (p_sys d') = 2500000 \<and>
     Control d' DEMUX_GET_LENGTH = (VLC_SUCCESS, I64 2500000, d')"
proof -
  from open_subrip_sample obtain d' st' where
    o: "Open (session ''subrip'' subrip_lines) statics_init = Some (VLC_SUCCESS, d', st')"
    and c: "subtitle (p_sys d') = [\<lparr>i_start = 1000000, i_stop = 2500000,
               psz_text = ''Line one'' @ [CHR 0x0A] @ ''Line two'' @ [CHR 0x0A]\<rparr>]"
    by (auto simp: outcome_def)
  from duration_of_finished_session [OF o] c o show ?thesis
    by (simp add: duration_of_def)
qed

subsection \<open>Seeking\<close>

lemma seek_loop_first_at:
  assumes "i_subtitles sys = int (length (subtitle sys))" and "0 \<le> i_subtitle sys"
      and "i_subtitle sys \<le> i_subtitles sys"
  shows "seek_loop sys q =
     sys\<lparr>i_subtitle := i_subtitle sys + int (first_at (drop (nat (i_subtitle sys)) (subtitle sys)) q)\<rparr>"
  using assms
proof (induction sys q rule: seek_loop.induct)
  case (1 sys q)
  let ?k = "nat (i_subtitle sys)"
  show ?case
  proof (cases "i_subtitle sys < i_subtitles sys \<and> i_start (subtitle sys ! ?k) < q")
    case True
    with "1.prems" have lt: "?k < length (subtitle sys)" by arith
    then have dr: "drop ?k (subtitle sys) = subtitle sys ! ?k # drop (Suc ?k) (subtitle sys)"
      by (simp add: Cons_nth_drop_Suc)
    from "1.prems" have n: "nat (i_subtitle sys + 1) = Suc ?k" by simp
    from True "1.prems" have
      "seek_loop (sys\<lparr>i_subtitle := i_subtitle sys + 1\<rparr>) q =
       (sys\<lparr>i_subtitle := i_subtitle sys + 1\<rparr>)\<lparr>i_subtitle := i_subtitle sys + 1
          + int (first_at (drop (Suc ?k) (subtitle sys)) q)\<rparr>"
      using "1.IH" [OF True] n by simp
    with True dr show ?thesis
      by (subst seek_loop.simps) (simp add: first_at_def)
  next
    case False
    have "first_at (drop ?k (subtitle sys)) q = 0"
    proof (cases "i_subtitle sys < i_subtitles sys")
      case True
      with "1.prems" have lt: "?k < length (subtitle sys)" by arith
      then have dr: "drop ?k (subtitle sys) = subtitle sys ! ?k # drop (Suc ?k) (subtitle sys)"
        by (simp add: Cons_nth_drop_Suc)
      with False True show ?thesis by (simp add: first_at_def)
    next
      case False
      with "1.prems" show ?thesis by (simp add: first_at_def)
    qed
    with False show ?thesis
      by (subst seek_loop.simps) auto
  qed
qed

lemma first_at_props:
  "first_at cues q \<le> length cues"
  "j < first_at cues q \<Longrightarrow> i_start (cues ! j) < q"
  "first_at cues q < length cues \<Longrightarrow> q \<le> i_start (cues ! first_at cues q)"
proof -
  show "first_at cues q \<le> length cues"
    by (simp add: first_at_def length_takeWhile_le)
  show "j < first_at cues q \<Longrightarrow> i_start (cues ! j) < q"
    unfolding first_at_def by (metis nth_mem set_takeWhileD takeWhile_nth)
  show "first_at cues q < length cues \<Longrightarrow> q \<le> i_start (cues ! first_at cues q)"
    unfolding first_at_def by (metis not_le nth_length_takeWhile)
qed

lemma first_at_sorted:
  assumes "cues \<noteq> []" and "sorted_wrt (<) (map i_start cues)"
  shows "first_at cues (i_start (last cues)) = length cues - 1"
    and "i_start (last cues) < q \<Longrightarrow> first_at cues q = length cues"
proof -
  obtain xs x where c: "cues = xs @ [x]" using assms(1) by (metis append_butlast_last_id)
  with assms(2) have lt: "\<forall>y \<in> set xs. i_start y < i_start x"
    by (simp add: sorted_wrt_append)
  then have "takeWhile (\<lambda>c. i_start c < i_start x) (xs @ [x]) = xs"
    by (simp add: takeWhile_append2)
  with c show "first_at cues (i_start (last cues)) = length cues - 1"
    by (simp add: first_at_def)
  assume "i_start (last cues) < q"
  with c lt have "\<forall>y \<in> set (xs @ [x]). i_start y < q" by auto
  then have "takeWhile (\<lambda>c. i_start c < q) (xs @ [x]) = xs @ [x]"
    by (simp only: takeWhile_eq_all_conv)
  with c show "first_at cues q = length cues"
    by (simp add: first_at_def)
qed

text \<open>
  Claim C8.  \<open>DEMUX_SET_TIME\<close> with time \<open>q\<close> leaves the current index at the
  first cue that starts at or after \<open>q\<close>, and fails with \<open>VLC_EGENERIC\<close> exactly
  when there is no such cue, the index then being the number of cues.  With
  strictly increasing start times, the start of the last cue selects the last
  index and succeeds, and any later time fails.  \<open>DEMUX_SET_POSITION\<close> with
  fraction \<open>f\<close> is \<open>DEMUX_SET_TIME\<close> with \<open>f\<close> times the length, computed in
  double precision and truncated.
\<close>

theorem seek_positions_at_first_cue_not_before:
  assumes "cues_ok d"
  shows "Control d (DEMUX_SET_TIME q) =
           (if first_at (subtitle (p_sys d)) q < length (subtitle (p_sys d))
            then VLC_SUCCESS else VLC_EGENERIC,
            NoAnswer,
            d\<lparr>p_sys := (p_sys d)\<lparr>i_subtitle := int (first_at (subtitle (p_sys d)) q)\<rparr>\<rparr>) \<and>
         Control d (DEMUX_SET_POSITION f) =
           Control d (DEMUX_SET_TIME
             (to_int64 (to_double (f * to_double (of_int (i_length (p_sys d))))))) \<and>
         first_at (subtitle (p_sys d)) q \<le> length (subtitle (p_sys d)) \<and>
         (\<forall>j < first_at (subtitle (p_sys d)) q. i_start (subtitle (p_sys d) ! j) < q) \<and>
         (first_at (subtitle (p_sys d)) q < length (subtitle (p_sys d)) \<longrightarrow>
            q \<le> i_start (subtitle (p_sys d) ! first_at (subtitle (p_sys d)) q)) \<and>
         (subtitle (p_sys d) \<noteq> [] \<and> sorted_wrt (<) (map i_start (subtitle (p_sys d))) \<longrightarrow>
            first_at (subtitle (p_sys d)) (i_start (last (subtitle (p_sys d))))
              = length (subtitle (p_sys d)) - 1 \<and>
            (i_start (last (subtitle (p_sys d))) < q \<longrightarrow>
               first_at (subtitle (p_sys d)) q = length (subtitle (p_sys d))))"
proof -
  let ?sys0 = "(p_sys d)\<lparr>i_subtitle := 0\<rparr>"
  from assms have "seek_loop ?sys0 q =
      ?sys0\<lparr>i_subtitle := i_subtitle ?sys0
          + int (first_at (drop (nat (i_subtitle ?sys0)) (subtitle ?sys0)) q)\<rparr>"
    by (intro seek_loop_first_at) (simp_all add: cues_ok_def)
  then have sl: "seek_loop ?sys0 q = (p_sys d)\<lparr>i_subtitle := int (first_at (subtitle (p_sys d)) q)\<rparr>"
    by simp
  have le: "first_at (subtitle (p_sys d)) q \<le> length (subtitle (p_sys d))"
    by (rule first_at_props)
  from assms sl le have "Control d (DEMUX_SET_TIME q) =
           (if first_at (subtitle (p_sys d)) q < length (subtitle (p_sys d))
            then VLC_SUCCESS else VLC_EGENERIC,
            NoAnswer,
            d\<lparr>p_sys := (p_sys d)\<lparr>i_subtitle := int (first_at (subtitle (p_sys d)) q)\<rparr>\<rparr>)"
    by (auto simp: seek_to_def Let_def cues_ok_def)
  then show ?thesis
    using first_at_props [where cues = "subtitle (p_sys d)" and q = q]
      first_at_sorted(1) [where cues = "subtitle (p_sys d)"]
      first_at_sorted(2) [where cues = "subtitle (p_sys d)" and q = q]
    by auto
qed


lemma seek_demo_facts:
  "cues_ok seek_demo"
  "subtitle (p_sys seek_demo) \<noteq> []"
  "sorted_wrt (<) (map i_start (subtitle (p_sys seek_demo)))"
  "length (subtitle (p_sys seek_demo)) = 3"
  "i_start (last (subtitle (p_sys seek_demo))) = 3000"
  "first_at (subtitle (p_sys seek_demo)) 2000 = 1"
  "to_int64 (to_double (to_double (of_int (i_length (p_sys seek_demo))) / 2)) = 1750"
  by (simp_all add: seek_demo_def blank_sys_def session_def cues_ok_def first_at_def) code_simp

theorem seek_positions_at_first_cue_not_before_witness:
  "cues_ok seek_demo \<and>
   Control seek_demo (DEMUX_SET_TIME 3000) =
     (VLC_SUCCESS, NoAnswer, seek_demo\<lparr>p_sys := (p_sys seek_demo)\<lparr>i_subtitle := 2\<rparr>\<rparr>) \<and>
   Control seek_demo (DEMUX_SET_TIME 3001) =
     (VLC_EGENERIC, NoAnswer, seek_demo\<lparr>p_sys := (p_sys seek_demo)\<lparr>i_subtitle := 3\<rparr>\<rparr>) \<and>
   Control seek_demo (DEMUX_SET_TIME 2000) =
     (VLC_SUCCESS, NoAnswer, seek_demo\<lparr>p_sys := (p_sys seek_demo)\<lparr>i_subtitle := 1\<rparr>\<rparr>) \<and>
   Control seek_demo (DEMUX_SET_POSITION (1 / 2)) = Control seek_demo (DEMUX_SET_TIME 1750)"
  using seek_positions_at_first_cue_not_before [OF seek_demo_facts(1), of 3000 "1 / 2"]
        seek_positions_at_first_cue_not_before [OF seek_demo_facts(1), of 3001 "1 / 2"]
        seek_positions_at_first_cue_not_before [OF seek_demo_facts(1), of 2000 "1 / 2"]
  by (simp add: seek_demo_facts del: Control.simps)

subsection \<open>SAMI: the text buffer\<close>

lemma Sami_put_holds:
  assumes "buf_holds i buf acc"
  shows "\<exists>i' buf'. Sami_put c i buf = Some (i', buf') \<and> buf_holds i' buf' (Sami_add c acc)"
proof (cases "c \<noteq> CHR 0x00 \<and> i + 1 < 8192")
  case True
  from assms have len: "length buf = 8192" and tk: "take i buf = take 8191 acc"
      and nz: "CHR 0x00 \<notin> set acc"
    by (simp_all add: buf_holds_def)
  from tk have "length (take i buf) = length (take 8191 acc)" by (rule arg_cong)
  with len True have la: "length acc = i" by (simp add: min_def split: if_splits)
  with tk True have acc: "acc = take i buf" by simp
  from True len have "take (i + 1) (buf[i := c, i + 1 := CHR 0x00]) = take i buf @ [c]"
    by (simp add: take_Suc_conv_app_nth)
  moreover from True have "8191 - i = Suc (8190 - i)" by arith
  ultimately have "buf_holds (i + 1) (buf[i := c, i + 1 := CHR 0x00]) (acc @ [c])"
    using True len la acc nz unfolding buf_holds_def by auto
  with True len show ?thesis by (simp add: Sami_put_def Sami_add_def)
next
  case False
  show ?thesis
  proof (cases "c = CHR 0x00")
    case True
    with assms show ?thesis by (simp add: Sami_put_def Sami_add_def)
  next
    case nz: False
    with False assms have i: "i = 8191" by (simp add: buf_holds_def)
    with assms have "length (take 8191 buf) = length (take 8191 acc)"
      by (simp add: buf_holds_def)
    with assms have "8191 \<le> length acc" by (simp add: buf_holds_def)
    with assms i nz have "buf_holds i buf (acc @ [c])" by (simp add: buf_holds_def)
    with False nz show ?thesis by (simp add: Sami_put_def Sami_add_def)
  qed
qed

lemma Sami_text_collect:
  assumes "buf_holds i buf acc"
  shows "\<exists>i' buf'. Sami_text tx s i buf = (VLC_SUCCESS, fst (Sami_collect tx s acc), i', buf') \<and>
                    buf_holds i' buf' (snd (Sami_collect tx s acc))"
  using assms
proof (induction tx s i buf arbitrary: acc rule: Sami_text.induct)
  case (1 tx s i buf)
  show ?case
  proof (cases s)
    case None
    with "1.prems" show ?thesis
      by (subst Sami_text.simps, subst (1 2) Sami_collect.simps) simp
  next
    case (Some l)
    show ?thesis
    proof (cases l)
      case Nil
      obtain s' t where g: "TextGetLine tx = (s', t)" by (cases "TextGetLine tx")
      from "1.IH"(1) [OF Some Nil g [symmetric] "1.prems"] Some Nil g show ?thesis
        by (subst Sami_text.simps, subst (1 2) Sami_collect.simps) simp
    next
      case (Cons c r)
      show ?thesis
      proof (cases "c = CHR ''<''")
        case lt: True
        show ?thesis
        proof (cases "strncasecmp (c # r) ''<br'' 3 \<noteq> 0 \<and> strcasestr (c # r) ''Start='' \<noteq> None")
          case True
          with "1.prems" Some Cons lt show ?thesis
            by (subst Sami_text.simps, subst (1 2) Sami_collect.simps)
               (simp del: strcasestr.simps)
        next
          case False
          let ?c = "if strncasecmp (c # r) ''<br'' 3 = 0 then CHR 0x0A else CHR 0x00"
          obtain s' t where ps: "ParseSamiSearch tx (Some (c # r)) ''>'' = (s', t)"
            by (cases "ParseSamiSearch tx (Some (c # r)) ''>''")
          from Sami_put_holds [OF "1.prems", of ?c] obtain i' buf'
            where put: "Sami_put ?c i buf = Some (i', buf')"
              and holds: "buf_holds i' buf' (Sami_add ?c acc)"
            by blast
          from "1.IH"(2) [OF Some Cons lt False ps [symmetric] put refl holds]
          obtain i'' buf'' where
            r: "Sami_text t s' i' buf' = (VLC_SUCCESS, fst (Sami_collect t s' (Sami_add ?c acc)), i'', buf'')"
            and h: "buf_holds i'' buf'' (snd (Sami_collect t s' (Sami_add ?c acc)))"
            by blast
          have a: "Sami_text tx s i buf = Sami_text t s' i' buf'"
            using Some Cons lt False ps put
            by (subst Sami_text.simps) (auto simp del: strcasestr.simps)
          have b: "Sami_collect tx s acc = Sami_collect t s' (Sami_add ?c acc)"
            using Some Cons lt False ps
            by (subst Sami_collect.simps) (auto simp del: strcasestr.simps)
          from r h show ?thesis unfolding a b by blast
        qed
      next
        case nlt: False
        show ?thesis
        proof (cases "strncmp (c # r) ''&nbsp;'' 6 = 0")
          case True
          from Sami_put_holds [OF "1.prems", of "CHR '' ''"] obtain i' buf'
            where put: "Sami_put (CHR '' '') i buf = Some (i', buf')"
              and holds: "buf_holds i' buf' (Sami_add (CHR '' '') acc)"
            by blast
          from "1.IH"(3) [OF Some Cons nlt True put refl holds] Some Cons nlt True put
          show ?thesis
            by (subst Sami_text.simps, subst (1 2) Sami_collect.simps) simp
        next
          case nb: False
          show ?thesis
          proof (cases "c = CHR 0x09")
            case True
            from Sami_put_holds [OF "1.prems", of "CHR '' ''"] obtain i' buf'
              where put: "Sami_put (CHR '' '') i buf = Some (i', buf')"
                and holds: "buf_holds i' buf' (Sami_add (CHR '' '') acc)"
              by blast
            from "1.IH"(4) [OF Some Cons nlt nb True put refl holds] Some Cons nlt nb True put
            show ?thesis
              by (subst Sami_text.simps, subst (1 2) Sami_collect.simps) simp
          next
            case False
            from Sami_put_holds [OF "1.prems", of c] obtain i' buf'
              where put: "Sami_put c i buf = Some (i', buf')"
                and holds: "buf_holds i' buf' (Sami_add c acc)"
              by blast
            from "1.IH"(5) [OF Some Cons nlt nb False put refl holds] Some Cons nlt nb False put
            show ?thesis
              by (subst Sami_text.simps, subst (1 2) Sami_collect.simps) simp
          qed
        qed
      qed
    qed
  qed
qed


lemma strdup_holds:
  assumes "buf_holds i buf acc"
  shows "strdup buf = Some (take 8191 acc)"
proof -
  from assms have i: "i < length buf" and z: "buf ! i = CHR 0x00"
      and tk: "take i buf = take 8191 acc" and nz: "CHR 0x00 \<notin> set acc"
    by (simp_all add: buf_holds_def)
  from i have sp: "buf = take i buf @ buf ! i # drop (Suc i) buf"
    by (rule id_take_nth_drop)
  from nz have "CHR 0x00 \<notin> set (take 8191 acc)" by (auto dest: in_set_takeD)
  with tk have pre: "\<forall>x \<in> set (take i buf). x \<noteq> CHR 0x00" by auto
  have "takeWhile (\<lambda>c. c \<noteq> CHR 0x00) (take i buf @ buf ! i # drop (Suc i) buf) = take i buf"
    using pre z by (simp add: takeWhile_append2)
  with sp have tw: "takeWhile (\<lambda>c. c \<noteq> CHR 0x00) buf = take i buf" by simp
  from i z have "CHR 0x00 \<in> set buf" by (metis nth_mem)
  with tw tk show ?thesis by (simp add: strdup_def)
qed

lemma buf_holds_init: "buf_holds 0 ((map f [0..8191])[0 := CHR 0x00]) []"
  by (simp add: buf_holds_def)

text \<open>
  Claim C9.  \<open>ParseSami\<close> never stores outside its array of 8192 characters
  and never fails because of the length of a text: it returns what the parser
  with an unbounded text returns, with the text of the cue cut after its first
  8191 characters.  The text of a cue it returns has at most 8191 characters and
  no NUL among them, so that with its terminator it fits the array.
\<close>

theorem sami_text_cut_at_8191:
  "ParseSami d slot i_idx =
     (case ParseSami_unbounded d slot i_idx of
        (rc, slot', d') \<Rightarrow>
          (rc, if rc = VLC_SUCCESS then slot'\<lparr>psz_text := take 8191 (psz_text slot')\<rparr> else slot', d')) \<and>
   fst (ParseSami d slot i_idx) \<noteq> UNDEFINED \<and>
   (if fst (ParseSami d slot i_idx) = VLC_SUCCESS
    then length (psz_text (fst (snd (ParseSami d slot i_idx)))) \<le> 8191 \<and>
         CHR 0x00 \<notin> set (psz_text (fst (snd (ParseSami d slot i_idx))))
    else fst (snd (ParseSami d slot i_idx)) = slot)"
proof -
  have tx: "\<exists>i' buf'. Sami_text t (Some s) 0 ((map (stack_junk d) [0..8191])[0 := CHR 0x00])
                = (VLC_SUCCESS, fst (Sami_collect t (Some s) []), i', buf') \<and>
              strdup buf' = Some (take 8191 (snd (Sami_collect t (Some s) []))) \<and>
              CHR 0x00 \<notin> set (snd (Sami_collect t (Some s) []))" for t s
  proof -
    from Sami_text_collect [OF buf_holds_init, of t "Some s" "stack_junk d"]
    obtain i' buf' where
      r: "Sami_text t (Some s) 0 ((map (stack_junk d) [0..8191])[0 := CHR 0x00])
            = (VLC_SUCCESS, fst (Sami_collect t (Some s) []), i', buf')"
      and h: "buf_holds i' buf' (snd (Sami_collect t (Some s) []))"
      by blast
    from h have "CHR 0x00 \<notin> set (snd (Sami_collect t (Some s) []))"
      by (simp add: buf_holds_def)
    with r strdup_holds [OF h] show ?thesis by blast
  qed
  have core:
    "(case Sami_text t (Some s) 0 ((map (stack_junk d) [0..8191])[0 := CHR 0x00]) of
        (rc, t4, i_text, buf) \<Rightarrow>
          if rc \<noteq> VLC_SUCCESS then (UNDEFINED, slot, set_txt d t4)
          else (case strdup buf of
                  None \<Rightarrow> (UNDEFINED, slot, set_txt d t4)
                | Some tx \<Rightarrow>
                    (VLC_SUCCESS, slot\<lparr>i_start := start * 1000, i_stop := 0, psz_text := tx\<rparr>,
                     set_txt d t4)))
     = (VLC_SUCCESS,
        slot\<lparr>i_start := start * 1000, i_stop := 0,
             psz_text := take 8191 (snd (Sami_collect t (Some s) []))\<rparr>,
        set_txt d (fst (Sami_collect t (Some s) [])))" for t s start
  proof -
    from tx [of t s] obtain i' buf' where
      "Sami_text t (Some s) 0 ((map (stack_junk d) [0..8191])[0 := CHR 0x00])
         = (VLC_SUCCESS, fst (Sami_collect t (Some s) []), i', buf')"
      and "strdup buf' = Some (take 8191 (snd (Sami_collect t (Some s) [])))"
      by blast
    then show ?thesis by simp
  qed
  have eq: "ParseSami d slot i_idx =
     (case ParseSami_unbounded d slot i_idx of
        (rc, slot', d') \<Rightarrow>
          (rc, if rc = VLC_SUCCESS then slot'\<lparr>psz_text := take 8191 (psz_text slot')\<rparr> else slot', d'))"
  proof -
    obtain o1 t1 where p1: "ParseSamiSearch (sys_txt (p_sys d)) None ''Start='' = (o1, t1)"
      by (cases "ParseSamiSearch (sys_txt (p_sys d)) None ''Start=''")
    show ?thesis
    proof (cases o1)
      case None
      with p1 show ?thesis by (simp add: ParseSami_def ParseSami_unbounded_def)
    next
      case s: (Some s)
      obtain start s1 where st: "strtol0 s = (start, s1)" by (cases "strtol0 s")
      obtain o2 t2 where p2: "ParseSamiSearch t1 (Some s1) ''<P'' = (o2, t2)"
        by (cases "ParseSamiSearch t1 (Some s1) ''<P''")
      show ?thesis
      proof (cases o2)
        case None
        with p1 s st p2 show ?thesis by (simp add: ParseSami_def ParseSami_unbounded_def)
      next
        case s2: (Some s2)
        obtain o3 t3 where p3: "ParseSamiSearch t2 (Some s2) ''>'' = (o3, t3)"
          by (cases "ParseSamiSearch t2 (Some s2) ''>''")
        show ?thesis
        proof (cases o3)
          case None
          with p1 s st p2 s2 p3 show ?thesis
            by (simp add: ParseSami_def ParseSami_unbounded_def)
        next
          case s3: (Some s3)
          obtain t4 acc where sc: "Sami_collect t3 (Some s3) [] = (t4, acc)"
            by (cases "Sami_collect t3 (Some s3) []")
          from p1 s st p2 s2 p3 s3 sc core [where t = t3 and s = s3 and start = start] show ?thesis
            by (simp add: ParseSami_def ParseSami_unbounded_def)
        qed
      qed
    qed
  qed
  have nzc: "CHR 0x00 \<notin> set acc" if "Sami_collect t (Some s) [] = (t', acc)" for t s t' acc
    using tx [of t s] that by auto
  have nz: "CHR 0x00 \<notin> set (psz_text (fst (snd (ParseSami_unbounded d slot i_idx))))"
    if "fst (ParseSami_unbounded d slot i_idx) = VLC_SUCCESS"
    using that unfolding ParseSami_unbounded_def
    by (auto split: prod.splits option.splits dest: nzc)
  have sl: "fst (snd (ParseSami_unbounded d slot i_idx)) = slot"
     and nu: "fst (ParseSami_unbounded d slot i_idx) \<noteq> UNDEFINED"
    if "fst (ParseSami_unbounded d slot i_idx) \<noteq> VLC_SUCCESS"
    using that unfolding ParseSami_unbounded_def
    by (auto split: prod.splits option.splits)
  show ?thesis
    using nz sl nu unfolding eq
    by (auto split: prod.splits dest: in_set_takeD)
qed

lemma Sami_collect_plain:
  assumes "c \<noteq> CHR ''<''" and "c \<noteq> CHR ''&''" and "c \<noteq> CHR 0x09" and "c \<noteq> CHR 0x00"
  shows "Sami_collect t (Some (replicate n c @ r)) acc = Sami_collect t (Some r) (acc @ replicate n c)"
proof (induction n arbitrary: acc)
  case 0
  show ?case by simp
next
  case (Suc n)
  have "strncmp (c # replicate n c @ r) (CHR ''&'' # ''nbsp;'') (Suc 5)
          = int (of_char c) - int (of_char (CHR ''&''))"
    using assms(2) by (simp only: strncmp.simps if_False)
  moreover have "(6::nat) = Suc 5" by simp
  ultimately have "strncmp (c # replicate n c @ r) ''&nbsp;'' 6
          = int (of_char c) - int (of_char (CHR ''&''))"
    by (simp only:)
  moreover from assms(2) have "int (of_char c) \<noteq> int (of_char (CHR ''&''))"
    by (simp only: of_nat_eq_iff of_char_eq_iff not_False_eq_True)
  ultimately have nb: "strncmp (c # replicate n c @ r) ''&nbsp;'' 6 \<noteq> 0"
    by linarith
  from assms nb have "Sami_collect t (Some (replicate (Suc n) c @ r)) acc
      = Sami_collect t (Some (replicate n c @ r)) (acc @ [c])"
    by (subst Sami_collect.simps) (simp add: Sami_add_def)
  with Suc show ?case by (simp add: replicate_app_Cons_same)
qed

lemma tolower_needles:
  "map tolower ''Start='' = ''start=''" "map tolower ''<P'' = ''<p''" "map tolower ''>'' = ''>''"
  by code_simp+

lemma sami_long_searches:
  "strcasestr (''<SYNC Start=1><P>'' @ r) ''Start='' = Some (''Start=1><P>'' @ r)"
  "strtol0 (''1><P>'' @ r) = (1, ''><P>'' @ r)"
  "strcasestr (''><P>'' @ r) ''<P'' = Some (''<P>'' @ r)"
  "strcasestr (''>'' @ r) ''>'' = Some (''>'' @ r)"
  by (simp_all add: tolower_needles tolower_def Let_def strtol0_def scan_sign_def isspace_def
        isdigit_def dec_val_def digit_val_def clamp_long_def)

lemmas sami_long_cons = sami_long_searches [unfolded append_Cons append_Nil]

lemma ParseSami_unbounded_one_line:
  assumes g1: "TextGetLine (sys_txt (p_sys d)) = (Some (''<SYNC Start=1><P>'' @ replicate n (CHR ''a'')), t1)"
      and g2: "TextGetLine t1 = (None, t1)"
  shows "ParseSami_unbounded d slot i_idx =
     (VLC_SUCCESS, slot\<lparr>i_start := 1000, i_stop := 0, psz_text := replicate n (CHR ''a'')\<rparr>,
      set_txt d t1)"
proof -
  let ?r = "replicate n (CHR ''a'')"
  have p1: "ParseSamiSearch (sys_txt (p_sys d)) None ''Start='' = (Some (''1><P>'' @ ?r), t1)"
    unfolding ParseSamiSearch_def option.case
    by (subst ParseSamiSearch_lines.simps)
       (simp only: g1 sami_long_cons option.case prod.case length_Cons list.size drop_Suc_Cons
          drop_0 append_Cons append_Nil)
  have p2: "ParseSamiSearch t1 (Some (''><P>'' @ ?r)) ''<P'' = (Some (''>'' @ ?r), t1)"
    unfolding ParseSamiSearch_def
    by (simp only: sami_long_cons option.case prod.case length_Cons list.size drop_Suc_Cons
          drop_0 append_Cons append_Nil)
  have p3: "ParseSamiSearch t1 (Some (''>'' @ ?r)) ''>'' = (Some ?r, t1)"
    unfolding ParseSamiSearch_def
    by (simp only: sami_long_cons option.case prod.case length_Cons list.size drop_Suc_Cons
          drop_0 append_Cons append_Nil)
  have "Sami_collect t1 (Some (?r @ [])) [] = Sami_collect t1 (Some []) ([] @ ?r)"
    by (rule Sami_collect_plain) simp_all
  also have "\<dots> = Sami_collect t1 None ?r"
    by (subst Sami_collect.simps) (simp add: g2)
  also have "\<dots> = (t1, ?r)"
    by (subst Sami_collect.simps) simp
  finally have c: "Sami_collect t1 (Some ?r) [] = (t1, ?r)"
    by simp
  show ?thesis
    unfolding ParseSami_unbounded_def
    by (simp only: p1 [unfolded append_Cons append_Nil] sami_long_cons
          p2 [unfolded append_Cons append_Nil] p3 [unfolded append_Cons append_Nil] c
          option.case prod.case append_Cons append_Nil) simp
qed

lemma ParseSami_unbounded_long:
  "ParseSami_unbounded (sami_long n) slot i_idx =
     (VLC_SUCCESS,
      slot\<lparr>i_start := 1000, i_stop := 0, psz_text := replicate n (CHR ''a'')\<rparr>,
      set_txt (sami_long n)
        (advance (loaded [''<SYNC Start=1><P>'' @ replicate n (CHR ''a'')]) 1))"
proof -
  let ?l = "''<SYNC Start=1><P>'' @ replicate n (CHR ''a'')"
  note g1 = TextGetLine_peek_Cons [OF text_ok_loaded peek_loaded, of ?l "[]"]
  note g2 = TextGetLine_peek_Nil [OF g1(2) g1(3)]
  have s: "sys_txt (p_sys (sami_long n)) = loaded [?l]"
    unfolding sami_long_def by (rule sys_txt_set_txt)
  show ?thesis
    by (rule ParseSami_unbounded_one_line) (simp_all only: s g1 g2)
qed

theorem sami_text_cut_at_8191_witness:
  "fst (ParseSami (sami_long 9000) slot0 0) = VLC_SUCCESS \<and>
   psz_text (fst (snd (ParseSami (sami_long 9000) slot0 0))) = replicate 8191 (CHR ''a'') \<and>
   length (psz_text (fst (snd (ParseSami (sami_long 9000) slot0 0)))) = 8191"
  using sami_text_cut_at_8191 [of "sami_long 9000" slot0 0]
  by (simp add: ParseSami_unbounded_long take_replicate)
end
